theory Spec2Isabelle
  imports Main "HOL-Library.Char_ord" "HOL-Library.List_Lexorder" "HOL-Library.Option_ord"
    "HOL-Library.Multiset"
begin

section \<open>The value table of \<^verbatim>\<open>ulmo/usgs/nwis/pytables.py\<close>\<close>

text \<open>
  A row of a value table has the five string columns of the class \<^verbatim>\<open>USGSValue\<close>.
  The column \<^verbatim>\<open>value\<close> is written \<open>value_col\<close> here. Strings are compared as Python 2
  compares \<^verbatim>\<open>str\<close>: character by character, a proper prefix being smaller.
  The columns have a width: \<^verbatim>\<open>StringCol(26)\<close> for \<^verbatim>\<open>datetime\<close>, \<^verbatim>\<open>last_checked\<close> and
  \<^verbatim>\<open>last_modified\<close>, \<^verbatim>\<open>StringCol(20)\<close> for \<^verbatim>\<open>qualifiers\<close> and \<^verbatim>\<open>value\<close>. A longer string is
  stored cut to the width of its column, by \<^verbatim>\<open>table[nrow] = row_tuple\<close> and by
  \<^verbatim>\<open>row[k] = v\<close> alike; \<open>cut_row\<close> is the row as a table stores it.
\<close>

record USGSValue =
  datetime :: string
  qualifiers :: string
  value_col :: string
  last_checked :: string
  last_modified :: string

definition cut_row :: "USGSValue \<Rightarrow> USGSValue" where
  "cut_row r =
     \<lparr>datetime = take 26 (datetime r),
      qualifiers = take 20 (qualifiers r),
      value_col = take 20 (value_col r),
      last_checked = take 26 (last_checked r),
      last_modified = take 26 (last_modified r)\<rparr>"

text \<open>
  The records of an incoming batch are Python dicts from column names to strings.
\<close>

type_synonym pydict = "string \<rightharpoonup> string"

datatype error =
    KeyError string
  | AttributeError string
  | TypeError
  | NoSiteFound string

text \<open>
  What the code does to a table, in the order it does it: \<^verbatim>\<open>table[nrow] = row_tuple\<close>,
  \<^verbatim>\<open>value_row.append()\<close> and \<^verbatim>\<open>table.flush()\<close>.
\<close>

datatype event = SetRow nat USGSValue | AppendRow USGSValue | Flush

record variable =
  var_code :: string
  var_statistic :: "string option"

record value_table =
  rows :: "USGSValue list"
  attr_variable :: "variable option"
  attr_last_refresh :: "string option"
  oplog :: "event list"

definition table_setitem :: "nat \<Rightarrow> USGSValue \<Rightarrow> value_table \<Rightarrow> value_table" where
  "table_setitem nrow row_tuple table =
     table\<lparr>rows := (rows table)[nrow := cut_row row_tuple],
           oplog := oplog table @ [SetRow nrow row_tuple]\<rparr>"

definition row_append :: "USGSValue \<Rightarrow> value_table \<Rightarrow> value_table" where
  "row_append r table = table\<lparr>rows := rows table @ [r], oplog := oplog table @ [AppendRow r]\<rparr>"

definition table_flush :: "value_table \<Rightarrow> value_table" where
  "table_flush table = table\<lparr>oplog := oplog table @ [Flush]\<rparr>"

text \<open>
  \<^verbatim>\<open>table.itersorted('datetime')\<close>: the rows with their row numbers, ascending by
  \<^verbatim>\<open>datetime\<close>. Rows with the same \<^verbatim>\<open>datetime\<close> come in row-number order here, which is
  what the index gives for a few rows of one timestamp and not for long runs of them. A
  series with one row per timestamp has no such rows, and no property below of such a
  series depends on that order.
\<close>

definition itersorted :: "USGSValue list \<Rightarrow> (nat \<times> USGSValue) list" where
  "itersorted rs = sort_key (\<lambda>p. datetime (snd p)) (enumerate 0 rs)"

text \<open>\<^verbatim>\<open>update_dict.get(name, original_value)\<close>.\<close>

definition dict_get :: "pydict \<Rightarrow> string \<Rightarrow> string \<Rightarrow> string" where
  "dict_get d name original_value = (case d name of Some v \<Rightarrow> v | None \<Rightarrow> original_value)"

text \<open>
  \<^verbatim>\<open>_updated_row_tuple\<close>: every column of the row, taken from the dict when the dict has
  that key and from the row otherwise.
\<close>

definition updated_row_tuple :: "USGSValue \<Rightarrow> pydict \<Rightarrow> USGSValue" where
  "updated_row_tuple row update_dict =
     \<lparr>datetime = dict_get update_dict ''datetime'' (datetime row),
      qualifiers = dict_get update_dict ''qualifiers'' (qualifiers row),
      value_col = dict_get update_dict ''value'' (value_col row),
      last_checked = dict_get update_dict ''last_checked'' (last_checked row),
      last_modified = dict_get update_dict ''last_modified'' (last_modified row)\<rparr>"

definition column_names :: "string set" where
  "column_names = {''datetime'', ''qualifiers'', ''value'', ''last_checked'', ''last_modified''}"

text \<open>
  The row buffer \<^verbatim>\<open>table.row\<close> holds the column defaults (the empty string for a
  \<^verbatim>\<open>StringCol\<close>) before it is filled and again after each \<^verbatim>\<open>append()\<close>.
\<close>

definition default_row :: USGSValue where
  "default_row = \<lparr>datetime = [], qualifiers = [], value_col = [], last_checked = [],
                  last_modified = []\<rparr>"

text \<open>
  \<^verbatim>\<open>_update_row_with_dict\<close>: \<^verbatim>\<open>row[k] = v\<close> for every item of the dict, each string cut to
  the width of its column; a key that is not a column is a \<^verbatim>\<open>KeyError\<close> of the row.
\<close>

definition update_row_with_dict :: "USGSValue \<Rightarrow> pydict \<Rightarrow> error + USGSValue" where
  "update_row_with_dict row d =
     (if dom d \<subseteq> column_names then Inr (cut_row (updated_row_tuple row d))
      else Inl (KeyError ''row''))"

definition flag_for_append :: "pydict \<Rightarrow> pydict" where
  "flag_for_append d = d(''__flag_for_append'' \<mapsto> ''True'')"

text \<open>
  The loop \<^verbatim>\<open>while current_row and current_row[sortby] < update_value[sortby]\<close>: the
  cursor is the list of rows the iterator has not passed; its head is \<^verbatim>\<open>current_row\<close>,
  and the empty list is \<^verbatim>\<open>current_row = None\<close>.
\<close>

fun advance :: "string \<Rightarrow> (nat \<times> USGSValue) list \<Rightarrow> (nat \<times> USGSValue) list" where
  "advance t [] = []"
| "advance t (p # rest) = (if datetime (snd p) < t then advance t rest else p # rest)"

text \<open>
  The comparison of a matching row with the incoming dict:
  \<^verbatim>\<open>if current_row['value'] != update_value['value'] or
       current_row['qualifiers'] != update_value['qualifiers']:
       update_value['last_modified'] = query_isodate\<close>.
  The \<^verbatim>\<open>or\<close> reads \<^verbatim>\<open>update_value['qualifiers']\<close> only when the values are equal.
\<close>

definition stamp_if_changed :: "string \<Rightarrow> USGSValue \<Rightarrow> pydict \<Rightarrow> error + pydict" where
  "stamp_if_changed query_isodate current_row update_value =
     (case update_value ''value'' of
        None \<Rightarrow> Inl (KeyError ''value'')
      | Some v \<Rightarrow>
          if value_col current_row \<noteq> v
          then Inr (update_value(''last_modified'' \<mapsto> query_isodate))
          else
            (case update_value ''qualifiers'' of
               None \<Rightarrow> Inl (KeyError ''qualifiers'')
             | Some qs \<Rightarrow>
                 if qualifiers current_row \<noteq> qs
                 then Inr (update_value(''last_modified'' \<mapsto> query_isodate))
                 else Inr update_value))"

text \<open>
  The body of the loop over the sorted batch, for one \<^verbatim>\<open>update_value\<close>: the new cursor,
  the dict as the body leaves it, and the pair added to \<^verbatim>\<open>update_rows\<close> if there is one
  (\<^verbatim>\<open>current_row.nrow\<close> and the merged tuple).
\<close>

definition merge_step ::
  "string \<Rightarrow> (nat \<times> USGSValue) list \<Rightarrow> pydict \<Rightarrow>
     error + ((nat \<times> USGSValue) list \<times> pydict \<times> (nat \<times> USGSValue) option)" where
  "merge_step query_isodate cur update_value =
     (case update_value ''datetime'' of
        None \<Rightarrow> Inl (KeyError ''datetime'')
      | Some t \<Rightarrow>
          (case cur of
             [] \<Rightarrow> Inr (cur, flag_for_append update_value, None)
           | current_row # rest \<Rightarrow>
               if t < datetime (snd current_row)
               then Inr (cur, flag_for_append update_value, None)
               else
                 (case advance t cur of
                    [] \<Rightarrow> Inr ([], flag_for_append update_value, None)
                  | current_row' # rest' \<Rightarrow>
                      if datetime (snd current_row') = t then
                        (case stamp_if_changed query_isodate (snd current_row') update_value of
                           Inl e \<Rightarrow> Inl e
                         | Inr d \<Rightarrow>
                             Inr (current_row' # rest', d,
                                  Some (fst current_row',
                                        updated_row_tuple (snd current_row') d)))
                      else Inr (current_row' # rest', flag_for_append update_value, None))))"

text \<open>
  The loop \<^verbatim>\<open>for i, update_value in enumerate(update_values)\<close>: the dicts as the loop
  leaves them and \<^verbatim>\<open>update_rows\<close>, in the order the pairs were added.
\<close>

fun scan ::
  "string \<Rightarrow> (nat \<times> USGSValue) list \<Rightarrow> pydict list \<Rightarrow>
     error + (pydict list \<times> (nat \<times> USGSValue) list)" where
  "scan query_isodate cur [] = Inr ([], [])"
| "scan query_isodate cur (update_value # others) =
     (case merge_step query_isodate cur update_value of
        Inl e \<Rightarrow> Inl e
      | Inr (cur', d, u) \<Rightarrow>
          (case scan query_isodate cur' others of
             Inl e \<Rightarrow> Inl e
           | Inr (ds, update_rows) \<Rightarrow>
               Inr (d # ds, (case u of None \<Rightarrow> update_rows | Some p \<Rightarrow> p # update_rows))))"

text \<open>
  \<^verbatim>\<open>for nrow, row_tuple in update_rows: table[nrow] = row_tuple; table.flush()\<close>.
\<close>

fun apply_update_rows :: "value_table \<Rightarrow> (nat \<times> USGSValue) list \<Rightarrow> value_table" where
  "apply_update_rows table [] = table"
| "apply_update_rows table (p # update_rows) =
     apply_update_rows (table_flush (table_setitem (fst p) (snd p) table)) update_rows"

text \<open>
  The last loop: every dict that carries the flag gets \<^verbatim>\<open>last_modified = query_isodate\<close>,
  loses the flag, fills the row buffer and is appended. The table comes back also when a
  \<^verbatim>\<open>KeyError\<close> stops the loop, since the writes before it are done.
\<close>

fun append_flagged ::
  "string \<Rightarrow> value_table \<Rightarrow> pydict list \<Rightarrow> value_table \<times> (error + pydict list)" where
  "append_flagged query_isodate table [] = (table, Inr [])"
| "append_flagged query_isodate table (update_value # others) =
     (if update_value ''__flag_for_append'' \<noteq> None then
        (let d = (update_value(''last_modified'' \<mapsto> query_isodate))(''__flag_for_append'' := None)
         in case update_row_with_dict default_row d of
              Inl e \<Rightarrow> (table, Inl e)
            | Inr value_row \<Rightarrow>
                (case append_flagged query_isodate (row_append value_row table) others of
                   (table', Inl e) \<Rightarrow> (table', Inl e)
                 | (table', Inr ds) \<Rightarrow> (table', Inr (d # ds))))
      else
        (case append_flagged query_isodate table others of
           (table', Inl e) \<Rightarrow> (table', Inl e)
         | (table', Inr ds) \<Rightarrow> (table', Inr (update_value # ds))))"

text \<open>
  \<^verbatim>\<open>update_values.sort(key=lambda v: v[sortby])\<close>, a stable sort; a dict without the key
  is a \<^verbatim>\<open>KeyError\<close>. The only caller passes \<^verbatim>\<open>sortby = 'datetime'\<close>.
\<close>

definition sort_update_values :: "pydict list \<Rightarrow> error + pydict list" where
  "sort_update_values update_values =
     (if \<exists>d \<in> set update_values. d ''datetime'' = None then Inl (KeyError ''datetime'')
      else Inr (sort_key (\<lambda>d. the (d ''datetime'')) update_values))"

text \<open>
  \<^verbatim>\<open>_update_or_append_sortable(table, update_values, 'datetime', query_isodate)\<close>: the
  table and the batch as the call leaves them, or the table and the exception.
\<close>

definition update_or_append_sortable ::
  "value_table \<Rightarrow> pydict list \<Rightarrow> string \<Rightarrow> value_table \<times> (error + pydict list)" where
  "update_or_append_sortable table update_values query_isodate =
     (case sort_update_values update_values of
        Inl e \<Rightarrow> (table, Inl e)
      | Inr sorted_values \<Rightarrow>
          (case scan query_isodate (itersorted (rows table)) sorted_values of
             Inl e \<Rightarrow> (table, Inl e)
           | Inr (ds, update_rows) \<Rightarrow>
               (case append_flagged query_isodate (apply_update_rows table update_rows) ds of
                  (table', Inl e) \<Rightarrow> (table', Inl e)
                | (table', Inr ds') \<Rightarrow> (table_flush table', Inr ds'))))"

text \<open>
  The rows as \<^verbatim>\<open>_values_table_as_dict\<close> reads them:
  \<^verbatim>\<open>[_row_to_dict(value, table) for value in table.itersorted(table.cols.datetime)]\<close>.
\<close>

definition sorted_values :: "value_table \<Rightarrow> USGSValue list" where
  "sorted_values table = map snd (itersorted (rows table))"

text \<open>
  The body of the loop \<^verbatim>\<open>for d in site_data.itervalues()\<close> of \<^verbatim>\<open>update_site_data\<close>, for
  the value table that \<^verbatim>\<open>_get_value_table\<close> has handed over:
  \<^verbatim>\<open>for value in update_values: value.update({'last_checked': query_isodate})\<close>, then
  \<^verbatim>\<open>value_table.attrs.variable = variable\<close>, the merge,
  \<^verbatim>\<open>value_table.attrs.last_refresh = query_isodate\<close> and \<^verbatim>\<open>value_table.flush()\<close>.
\<close>

definition stamp_last_checked :: "string \<Rightarrow> pydict list \<Rightarrow> pydict list" where
  "stamp_last_checked query_isodate update_values =
     map (\<lambda>v. v(''last_checked'' \<mapsto> query_isodate)) update_values"

definition refresh_table ::
  "value_table \<Rightarrow> variable \<Rightarrow> pydict list \<Rightarrow> string \<Rightarrow> value_table \<times> (error + pydict list)" where
  "refresh_table value_table v update_values query_isodate =
     (case update_or_append_sortable (value_table\<lparr>attr_variable := Some v\<rparr>)
             (stamp_last_checked query_isodate update_values) query_isodate of
        (table, Inl e) \<Rightarrow> (table, Inl e)
      | (table, Inr ds) \<Rightarrow>
          (table_flush (table\<lparr>attr_last_refresh := Some query_isodate\<rparr>), Inr ds))"

section \<open>The hdf5 file and its nodes\<close>

text \<open>
  A row of the sites table has the string columns of the class \<^verbatim>\<open>USGSSite\<close>; the site dict
  that \<^verbatim>\<open>get_site\<close> returns has the same keys, and \<^verbatim>\<open>site['agency']\<close> and \<^verbatim>\<open>site['code']\<close>
  are all the code below reads of it. The nested columns \<^verbatim>\<open>location\<close> and \<^verbatim>\<open>timezone_info\<close>
  are read by no function modelled here and are left out.
\<close>

record USGSSite =
  agency :: string
  code :: string
  county :: string
  huc :: string
  site_name :: string
  network :: string
  site_type :: string
  state_code :: string

text \<open>
  A node of the file is a group or a table, and is found by its path from the root:
  \<^verbatim>\<open>/usgs/values/USGS/01\<close> is \<open>[''usgs'', ''values'', ''USGS'', ''01'']\<close>. A node handle in the
  code (\<^verbatim>\<open>usgs_group\<close>, \<^verbatim>\<open>site_group\<close>) is the path here. The file is the list of its nodes,
  in the order they were created, and the mode it was opened in.
\<close>

datatype node = Group | SitesTable "USGSSite list" | ValueTable value_table

type_synonym path = "string list"

record h5file =
  mode :: string
  nodes :: "(path \<times> node) list"

text \<open>\<^verbatim>\<open>h5file.getNode\<close>: \<open>None\<close> stands for \<^verbatim>\<open>NoSuchNodeError\<close>.\<close>

definition get_node :: "h5file \<Rightarrow> path \<Rightarrow> node option" where
  "get_node h5file p = map_of (nodes h5file) p"

text \<open>\<^verbatim>\<open>h5file.createGroup\<close> and \<^verbatim>\<open>h5file.createTable\<close>.\<close>

definition create_node :: "h5file \<Rightarrow> path \<Rightarrow> node \<Rightarrow> h5file" where
  "create_node h5file p nd = h5file\<lparr>nodes := nodes h5file @ [(p, nd)]\<rparr>"

definition is_writable :: "h5file \<Rightarrow> bool" where
  "is_writable h5file = (if mode h5file = ''r'' \<or> mode h5file = ''rb'' then False else True)"

text \<open>
  Every \<^verbatim>\<open>_get_...\<close> function ends in the same lines:
  \<^verbatim>\<open>try: node = h5file.getNode(parent, name)
  except NoSuchNodeError:
      if _is_writable(h5file): node = h5file.create...(parent, name, ...)
      else: return None
  return node\<close>.
  The result is the file as the lines leave it and the node, \<open>None\<close> for \<^verbatim>\<open>None\<close>.
\<close>

definition get_or_create :: "h5file \<Rightarrow> path \<Rightarrow> node \<Rightarrow> h5file \<times> path option" where
  "get_or_create h5file p fresh =
     (case get_node h5file p of
        Some nd \<Rightarrow> (h5file, Some p)
      | None \<Rightarrow>
          if is_writable h5file then (create_node h5file p fresh, Some p)
          else (h5file, None))"

definition get_usgs_group :: "h5file \<Rightarrow> h5file \<times> path option" where
  "get_usgs_group h5file = get_or_create h5file [''usgs''] Group"

definition get_sites_table :: "h5file \<Rightarrow> h5file \<times> path option" where
  "get_sites_table h5file =
     (case get_usgs_group h5file of
        (h5, None) \<Rightarrow> (h5, None)
      | (h5, Some usgs_group) \<Rightarrow> get_or_create h5 (usgs_group @ [''sites'']) (SitesTable []))"

definition get_values_group :: "h5file \<Rightarrow> h5file \<times> path option" where
  "get_values_group h5file =
     (case get_usgs_group h5file of
        (h5, None) \<Rightarrow> (h5, None)
      | (h5, Some usgs_group) \<Rightarrow> get_or_create h5 (usgs_group @ [''values'']) Group)"

definition get_agency_group :: "h5file \<Rightarrow> string \<Rightarrow> h5file \<times> path option" where
  "get_agency_group h5file agency_name =
     (case get_values_group h5file of
        (h5, None) \<Rightarrow> (h5, None)
      | (h5, Some values_group) \<Rightarrow> get_or_create h5 (values_group @ [agency_name]) Group)"

definition get_site_group :: "h5file \<Rightarrow> USGSSite \<Rightarrow> h5file \<times> path option" where
  "get_site_group h5file site =
     (case get_agency_group h5file (agency site) of
        (h5, None) \<Rightarrow> (h5, None)
      | (h5, Some agency_group) \<Rightarrow> get_or_create h5 (agency_group @ [code site]) Group)"

text \<open>
  \<^verbatim>\<open>_get_value_table\<close>. The name of the table is \<^verbatim>\<open>code:statistic\<close>, or \<^verbatim>\<open>code\<close> for a variable
  without a statistic; the title of a new table is built from
  \<^verbatim>\<open>variable['statistic']['code']\<close>, a \<^verbatim>\<open>KeyError\<close> for such a variable.
\<close>

definition value_table_name :: "variable \<Rightarrow> string" where
  "value_table_name v =
     (case var_statistic v of Some st \<Rightarrow> var_code v @ '':'' @ st | None \<Rightarrow> var_code v)"

definition new_value_table :: value_table where
  "new_value_table = \<lparr>rows = [], attr_variable = None, attr_last_refresh = None, oplog = []\<rparr>"

definition get_value_table ::
  "h5file \<Rightarrow> USGSSite \<Rightarrow> variable \<Rightarrow> h5file \<times> (error + path option)" where
  "get_value_table h5file site v =
     (case get_site_group h5file site of
        (h5, None) \<Rightarrow> (h5, Inr None)
      | (h5, Some site_group) \<Rightarrow>
          (case get_node h5 (site_group @ [value_table_name v]) of
             Some nd \<Rightarrow> (h5, Inr (Some (site_group @ [value_table_name v])))
           | None \<Rightarrow>
               if is_writable h5 then
                 (case var_statistic v of
                    None \<Rightarrow> (h5, Inl (KeyError ''statistic''))
                  | Some st \<Rightarrow>
                      (create_node h5 (site_group @ [value_table_name v])
                         (ValueTable new_value_table),
                       Inr (Some (site_group @ [value_table_name v]))))
               else (h5, Inr None)))"

text \<open>
  \<^verbatim>\<open>get_sites\<close>, from the line after \<^verbatim>\<open>with util.open_h5file(path, 'r') as h5file\<close>: the
  argument is the file as that line opened it. \<^verbatim>\<open>dict([...])\<close> keeps the last pair of a key.
\<close>

definition get_sites :: "h5file \<Rightarrow> h5file \<times> (error + (string \<rightharpoonup> USGSSite))" where
  "get_sites h5file =
     (case get_sites_table h5file of
        (h5, None) \<Rightarrow> (h5, Inr Map.empty)
      | (h5, Some sites_table) \<Rightarrow>
          (case get_node h5 sites_table of
             Some (SitesTable site_rows) \<Rightarrow>
               (h5, Inr (if site_rows = [] then Map.empty
                         else map_of (rev (map (\<lambda>row. (code row, row)) site_rows))))
           | _ \<Rightarrow> (h5, Inl (AttributeError ''iterrows''))))"

text \<open>
  \<^verbatim>\<open>_values_table_as_dict\<close>: the key \<^verbatim>\<open>code:statistic\<close> and the dict of the variable and the
  values in sorted order. \<^verbatim>\<open>table.attrs.variable\<close> is an \<^verbatim>\<open>AttributeError\<close> on a table
  that has no such attribute.
\<close>

definition values_table_as_dict :: "node \<Rightarrow> error + (string \<times> (variable \<times> USGSValue list))" where
  "values_table_as_dict nd =
     (case nd of
        ValueTable table \<Rightarrow>
          (case attr_variable table of
             None \<Rightarrow> Inl (AttributeError ''variable'')
           | Some v \<Rightarrow>
               (case var_statistic v of
                  None \<Rightarrow> Inl (KeyError ''statistic'')
                | Some st \<Rightarrow> Inr (var_code v @ '':'' @ st, (v, sorted_values table))))
      | _ \<Rightarrow> Inl (AttributeError ''variable''))"

text \<open>
  \<^verbatim>\<open>site_group._f_walkNodes('Table')\<close>: the tables right below the group in the order of
  their names, then the tables of its child groups, group after group in the order of the
  names of the groups. The module creates the value tables of a site right below its group;
  tables further down, which it never creates, are taken here by depth and then by path.
  \<^verbatim>\<open>site_group._f_iterNodes()\<close>: the nodes right below the group.
\<close>

fun is_table :: "node \<Rightarrow> bool" where
  "is_table Group = False"
| "is_table (SitesTable site_rows) = True"
| "is_table (ValueTable table) = True"

definition walk_tables :: "h5file \<Rightarrow> path \<Rightarrow> node list" where
  "walk_tables h5file g =
     map snd
       (sort_key (\<lambda>pn. length (fst pn))
          (sort_key fst
             (filter (\<lambda>pn. length g < length (fst pn) \<and> take (length g) (fst pn) = g \<and>
                           is_table (snd pn)) (nodes h5file))))"

definition iter_nodes :: "h5file \<Rightarrow> path \<Rightarrow> node list" where
  "iter_nodes h5file g =
     map snd (filter (\<lambda>pn. length (fst pn) = Suc (length g) \<and> take (length g) (fst pn) = g)
                (nodes h5file))"

text \<open>A list comprehension stops at the first exception.\<close>

fun collect :: "(error + 'a) list \<Rightarrow> error + 'a list" where
  "collect [] = Inr []"
| "collect (Inl e # xs) = Inl e"
| "collect (Inr x # xs) = (case collect xs of Inl e \<Rightarrow> Inl e | Inr ys \<Rightarrow> Inr (x # ys))"

text \<open>
  \<^verbatim>\<open>get_site_data\<close>, from the line after \<^verbatim>\<open>with util.open_h5file(path, mode='r') as h5file\<close>.
  \<^verbatim>\<open>if agency_code\<close> holds for a string that is not empty. The loop leaves in \<^verbatim>\<open>agency\<close> the
  agency of the last row found and in \<^verbatim>\<open>count\<close> the number of rows found less one.
  \<^verbatim>\<open>raise ('more than one site found, ...')\<close> raises a string, which Python answers with
  the \<^verbatim>\<open>TypeError\<close> "exceptions must be old-style classes or derived from BaseException,
  not str"; \<^verbatim>\<open>raise Exception("no site found for code: %s" % site_code)\<close> is
  \<open>NoSiteFound\<close>. The path \<^verbatim>\<open>'/usgs/values/%s/%s' % (agency, site_code)\<close> is the list of
  its four names.
\<close>

definition where_clause :: "string \<Rightarrow> string option \<Rightarrow> USGSSite \<Rightarrow> bool" where
  "where_clause site_code agency_code row =
     (case agency_code of
        None \<Rightarrow> code row = site_code
      | Some a \<Rightarrow> if a \<noteq> [] then code row = site_code \<and> agency row = a
                  else code row = site_code)"

definition agency_given :: "string option \<Rightarrow> bool" where
  "agency_given agency_code = (case agency_code of None \<Rightarrow> False | Some a \<Rightarrow> a \<noteq> [])"

definition site_values ::
  "h5file \<Rightarrow> path \<Rightarrow> error + (string \<rightharpoonup> (variable \<times> USGSValue list))" where
  "site_values h5file site_group =
     (case collect (map values_table_as_dict (walk_tables h5file site_group)) of
        Inl e \<Rightarrow> Inl e
      | Inr pairs \<Rightarrow> Inr (map_of (rev pairs)))"

definition get_site_data ::
  "h5file \<Rightarrow> string \<Rightarrow> string option \<Rightarrow>
     h5file \<times> (error + (string \<rightharpoonup> (variable \<times> USGSValue list)))" where
  "get_site_data h5file site_code agency_code =
     (case get_sites_table h5file of
        (h5, None) \<Rightarrow> (h5, Inr Map.empty)
      | (h5, Some sites_table) \<Rightarrow>
          (case get_node h5 sites_table of
             Some (SitesTable site_rows) \<Rightarrow>
               (case filter (where_clause site_code agency_code) site_rows of
                  [] \<Rightarrow> (h5, Inr Map.empty)
                | row # others \<Rightarrow>
                    if agency (last (row # others)) = [] then (h5, Inr Map.empty)
                    else if 1 \<le> length others \<and> \<not> agency_given agency_code
                    then (h5, Inl TypeError)
                    else
                      (case get_node h5
                              [''usgs'', ''values'', agency (last (row # others)), site_code] of
                         None \<Rightarrow> (h5, Inl (NoSiteFound site_code))
                       | Some site_group \<Rightarrow>
                           (h5, site_values h5
                                  [''usgs'', ''values'', agency (last (row # others)), site_code])))
           | _ \<Rightarrow> (h5, Inl (AttributeError ''where''))))"

text \<open>
  \<^verbatim>\<open>_last_refresh\<close>. \<^verbatim>\<open>getattr(child.attrs, 'last_refresh', None)\<close> is \<open>None\<close> for a node
  without the attribute. Python 2 orders \<^verbatim>\<open>None\<close> before every string, which is the order
  of \<open>string option\<close>, so \<^verbatim>\<open>min\<close> is \<open>None\<close> as soon as one node has no such attribute.
\<close>

fun node_last_refresh :: "node \<Rightarrow> string option" where
  "node_last_refresh (ValueTable table) = attr_last_refresh table"
| "node_last_refresh nd = None"

definition last_refresh :: "USGSSite \<Rightarrow> h5file \<Rightarrow> h5file \<times> (error + string option)" where
  "last_refresh site h5file =
     (case get_site_group h5file site of
        (h5, None) \<Rightarrow> (h5, Inl (AttributeError ''_f_iterNodes''))
      | (h5, Some site_group) \<Rightarrow>
          (let last_refreshes = map node_last_refresh (iter_nodes h5 site_group)
           in if length last_refreshes = 0 then (h5, Inr None)
              else (h5, Inr (min_list last_refreshes))))"

text \<open>
  The choice of \<^verbatim>\<open>date_range_params\<close> in \<^verbatim>\<open>update_site_data\<close>, from the line after
  \<^verbatim>\<open>with util.open_h5file(path, mode="r+") as h5file\<close>. \<^verbatim>\<open>if last_site_refresh\<close> holds for a
  string that is not empty.
\<close>

datatype date_range =
    Start string
  | Period string
  | Explicit "string option" "string option" "string option"

definition date_range_params ::
  "string option \<Rightarrow> string option \<Rightarrow> string option \<Rightarrow> USGSSite \<Rightarrow> h5file \<Rightarrow>
     h5file \<times> (error + date_range)" where
  "date_range_params start_date end_date period site h5file =
     (if start_date = None \<and> end_date = None \<and> period = None then
        (case last_refresh site h5file of
           (h5, Inl e) \<Rightarrow> (h5, Inl e)
         | (h5, Inr last_site_refresh) \<Rightarrow>
             (case last_site_refresh of
                None \<Rightarrow> (h5, Inr (Period ''all''))
              | Some s \<Rightarrow> if s \<noteq> [] then (h5, Inr (Start s)) else (h5, Inr (Period ''all''))))
      else (h5file, Inr (Explicit start_date end_date period)))"

section \<open>Notions used to state and prove the properties\<close>

text \<open>
  The definitions of this section are not code of the module. They name what the proofs
  talk about: the row a timestamp is found at, the shape of an incoming record, and the
  two lists the merge builds.
\<close>

text \<open>
  An incoming record, as \<^verbatim>\<open>update_site_data\<close> hands it to the merge: a dict of the fetch
  client with the keys \<^verbatim>\<open>datetime\<close>, \<^verbatim>\<open>value\<close> and \<^verbatim>\<open>qualifiers\<close>, to which
  \<^verbatim>\<open>update_site_data\<close> adds \<^verbatim>\<open>last_checked\<close>. It carries no \<^verbatim>\<open>last_modified\<close> and no
  append flag of its own.
\<close>

definition incoming :: "pydict \<Rightarrow> bool" where
  "incoming d \<longleftrightarrow>
     {''datetime'', ''value'', ''qualifiers''} \<subseteq> dom d \<and>
     dom d \<subseteq> {''datetime'', ''value'', ''qualifiers'', ''last_checked''}"

text \<open>
  A record whose strings fit the columns they go to, and an incoming record that does:
  what the fetch client delivers is a timestamp in ISO 8601 format, a value and a list of
  qualifier codes.
\<close>

definition fits_key :: "pydict \<Rightarrow> string \<Rightarrow> nat \<Rightarrow> bool" where
  "fits_key d k width = (case d k of None \<Rightarrow> True | Some s \<Rightarrow> length s \<le> width)"

definition fits_columns :: "pydict \<Rightarrow> bool" where
  "fits_columns d \<longleftrightarrow>
     fits_key d ''datetime'' 26 \<and> fits_key d ''value'' 20 \<and> fits_key d ''qualifiers'' 20 \<and>
     fits_key d ''last_checked'' 26"

definition fetched :: "pydict \<Rightarrow> bool" where
  "fetched d \<longleftrightarrow> incoming d \<and> fits_columns d"

definition fetched_value :: "string \<Rightarrow> string \<Rightarrow> string \<Rightarrow> string \<Rightarrow> pydict" where
  "fetched_value t v qs checked =
     [''datetime'' \<mapsto> t, ''value'' \<mapsto> v, ''qualifiers'' \<mapsto> qs, ''last_checked'' \<mapsto> checked]"

text \<open>The first row of a cursor that has the timestamp \<open>t\<close>, with its row number.\<close>

definition find_row :: "(nat \<times> USGSValue) list \<Rightarrow> string \<Rightarrow> (nat \<times> USGSValue) option" where
  "find_row cur t = find (\<lambda>p. datetime (snd p) = t) cur"

definition unmatched :: "(nat \<times> USGSValue) list \<Rightarrow> pydict \<Rightarrow> bool" where
  "unmatched cur d \<longleftrightarrow> find_row cur (the (d ''datetime'')) = None"

text \<open>
  The test of \<open>stamp_if_changed\<close> and its result, for a dict that has both keys.
\<close>

definition changed :: "USGSValue \<Rightarrow> pydict \<Rightarrow> bool" where
  "changed r d \<longleftrightarrow> d ''value'' \<noteq> Some (value_col r) \<or> d ''qualifiers'' \<noteq> Some (qualifiers r)"

definition stamped :: "string \<Rightarrow> USGSValue \<Rightarrow> pydict \<Rightarrow> pydict" where
  "stamped q r d = (if changed r d then d(''last_modified'' \<mapsto> q) else d)"

text \<open>
  What one pass of the loop body comes to when the row is looked up in the whole cursor:
  the dict as the body leaves it and the pair for \<^verbatim>\<open>update_rows\<close>.
\<close>

definition classify ::
  "string \<Rightarrow> (nat \<times> USGSValue) list \<Rightarrow> pydict \<Rightarrow> pydict \<times> (nat \<times> USGSValue) option" where
  "classify q cur d =
     (case find_row cur (the (d ''datetime'')) of
        None \<Rightarrow> (flag_for_append d, None)
      | Some p \<Rightarrow>
          (stamped q (snd p) d, Some (fst p, updated_row_tuple (snd p) (stamped q (snd p) d))))"

text \<open>The row appended for a flagged dict, and the dict as the whole call leaves it.\<close>

definition appended_row :: "string \<Rightarrow> pydict \<Rightarrow> USGSValue" where
  "appended_row q d = cut_row (updated_row_tuple default_row (d(''last_modified'' \<mapsto> q)))"

definition final_dict :: "string \<Rightarrow> (nat \<times> USGSValue) list \<Rightarrow> pydict \<Rightarrow> pydict" where
  "final_dict q cur d =
     (case find_row cur (the (d ''datetime'')) of
        None \<Rightarrow> d(''last_modified'' \<mapsto> q)
      | Some p \<Rightarrow> stamped q (snd p) d)"

text \<open>
  The rows after the writes \<^verbatim>\<open>table[nrow] = row_tuple\<close>, the sorted batch, the list
  \<^verbatim>\<open>update_rows\<close> and the rows appended, each as a function of the table and the batch.
\<close>

definition set_rows :: "(nat \<times> USGSValue) list \<Rightarrow> USGSValue list \<Rightarrow> USGSValue list" where
  "set_rows us rs = fold (\<lambda>p xs. xs[fst p := cut_row (snd p)]) us rs"

definition sorted_batch :: "pydict list \<Rightarrow> pydict list" where
  "sorted_batch ds = sort_key (\<lambda>d. the (d ''datetime'')) ds"

definition matches :: "string \<Rightarrow> USGSValue list \<Rightarrow> pydict list \<Rightarrow> (nat \<times> USGSValue) list" where
  "matches q rs ds = List.map_filter (\<lambda>d. snd (classify q (itersorted rs) d)) (sorted_batch ds)"

definition appends :: "string \<Rightarrow> USGSValue list \<Rightarrow> pydict list \<Rightarrow> USGSValue list" where
  "appends q rs ds = map (appended_row q) (filter (unmatched (itersorted rs)) (sorted_batch ds))"

text \<open>The number of \<^verbatim>\<open>table.flush()\<close> calls in a log.\<close>

definition flushes :: "event list \<Rightarrow> nat" where
  "flushes es = length (filter (\<lambda>e. e = Flush) es)"

text \<open>Small tables to run the code on.\<close>

definition example_row :: USGSValue where
  "example_row = \<lparr>datetime = ''2012-01-01'', qualifiers = ''P'', value_col = ''1.5'',
                  last_checked = ''2012-02-01'', last_modified = ''2012-02-01''\<rparr>"

definition example_table :: value_table where
  "example_table = \<lparr>rows = [example_row], attr_variable = None, attr_last_refresh = None,
                    oplog = []\<rparr>"

definition empty_table :: value_table where
  "empty_table = \<lparr>rows = [], attr_variable = None, attr_last_refresh = None, oplog = []\<rparr>"

text \<open>Small files to run the code on.\<close>

definition example_site :: USGSSite where
  "example_site = \<lparr>agency = ''USGS'', code = ''01'', county = ''Travis'', huc = ''12'',
                   site_name = ''Creek'', network = ''NWIS'', site_type = ''ST'',
                   state_code = ''TX''\<rparr>"

definition example_variable :: variable where
  "example_variable = \<lparr>var_code = ''00060'', var_statistic = Some ''00003''\<rparr>"

definition empty_store :: h5file where
  "empty_store = \<lparr>mode = ''r'', nodes = []\<rparr>"

definition catalog_only_store :: h5file where
  "catalog_only_store =
     \<lparr>mode = ''r'',
      nodes = [([''usgs''], Group), ([''usgs'', ''sites''], SitesTable [example_site])]\<rparr>"



definition cached_store :: "string \<Rightarrow> h5file" where
  "cached_store m =
     \<lparr>mode = m,
      nodes = [([''usgs''], Group),
               ([''usgs'', ''sites''], SitesTable [example_site]),
               ([''usgs'', ''values''], Group),
               ([''usgs'', ''values'', ''USGS''], Group),
               ([''usgs'', ''values'', ''USGS'', ''01''], Group),
               ([''usgs'', ''values'', ''USGS'', ''01'', ''00060:00003''],
                ValueTable (example_table\<lparr>attr_variable := Some example_variable,
                                          attr_last_refresh := Some ''2012-02-01''\<rparr>)),
               ([''usgs'', ''values'', ''USGS'', ''01'', ''00065:00003''],
                ValueTable (empty_table\<lparr>attr_variable := Some (example_variable\<lparr>var_code := ''00065''\<rparr>),
                                        attr_last_refresh := Some ''2012-01-15''\<rparr>))]\<rparr>"

text \<open>A record as the fetch client delivers it, before \<^verbatim>\<open>update_site_data\<close> stamps it.\<close>

definition raw_value :: "string \<Rightarrow> string \<Rightarrow> string \<Rightarrow> pydict" where
  "raw_value t v qs = [''datetime'' \<mapsto> t, ''value'' \<mapsto> v, ''qualifiers'' \<mapsto> qs]"

section \<open>The merge as a lookup per incoming record\<close>

lemma stamp_if_changed_incoming:
  "d ''value'' \<noteq> None \<Longrightarrow> d ''qualifiers'' \<noteq> None \<Longrightarrow> stamp_if_changed q r d = Inr (stamped q r d)"
  by (auto simp: stamp_if_changed_def stamped_def changed_def split: option.splits)

lemma find_row_advance:
  "t \<le> t' \<Longrightarrow> find_row (advance t cur) t' = find_row cur t'"
  by (induction cur) (auto simp: find_row_def)

lemma sorted_advance:
  "sorted (map (\<lambda>p. datetime (snd p)) cur) \<Longrightarrow> sorted (map (\<lambda>p. datetime (snd p)) (advance t cur))"
  by (induction cur) auto

lemma advance_head:
  "advance t cur = p # rest \<Longrightarrow> t \<le> datetime (snd p)"
  by (induction cur) (auto split: if_splits)

lemma find_row_none_if_above:
  "sorted (map (\<lambda>p. datetime (snd p)) (p # rest)) \<Longrightarrow> t < datetime (snd p) \<Longrightarrow> find_row (p # rest) t = None"
  by (auto simp: find_row_def find_None_iff)

lemma merge_step_classify:
  assumes "sorted (map (\<lambda>p. datetime (snd p)) cur)" and "d ''datetime'' = Some t"
    and "d ''value'' \<noteq> None" and "d ''qualifiers'' \<noteq> None"
  shows "\<exists>cur'. merge_step q cur d = Inr (cur', classify q cur d) \<and>
           sorted (map (\<lambda>p. datetime (snd p)) cur') \<and>
           (\<forall>t'. t \<le> t' \<longrightarrow> find_row cur' t' = find_row cur t')"
proof (cases cur)
  case Nil
  then show ?thesis using assms by (simp add: merge_step_def classify_def find_row_def)
next
  case (Cons p rest)
  show ?thesis
  proof (cases "t < datetime (snd p)")
    case True
    then have "find_row cur t = None" using find_row_none_if_above[of p rest t] assms(1) Cons by simp
    then show ?thesis using assms Cons True by (simp add: merge_step_def classify_def)
  next
    case False
    have fr: "\<forall>t'. t \<le> t' \<longrightarrow> find_row (advance t cur) t' = find_row cur t'"
      using find_row_advance[of t _ cur] by simp
    have s: "sorted (map (\<lambda>p. datetime (snd p)) (advance t cur))"
      using sorted_advance[of cur t] assms(1) by simp
    have ms: "merge_step q cur d =
       (case advance t cur of
          [] \<Rightarrow> Inr ([], flag_for_append d, None)
        | current_row' # rest' \<Rightarrow>
            if datetime (snd current_row') = t then
              (case stamp_if_changed q (snd current_row') d of
                 Inl e \<Rightarrow> Inl e
               | Inr d' \<Rightarrow> Inr (current_row' # rest', d',
                      Some (fst current_row', updated_row_tuple (snd current_row') d')))
            else Inr (current_row' # rest', flag_for_append d, None))"
      using assms(2) Cons False by (simp add: merge_step_def del: advance.simps)
    show ?thesis
    proof (cases "advance t cur")
      case Nil
      then have "find_row cur t = None" using fr by (auto simp: find_row_def)
      then show ?thesis using ms Nil fr by (simp add: classify_def assms(2))
    next
      case (Cons p' rest')
      note adv = Cons
      show ?thesis
      proof (cases "datetime (snd p') = t")
        case True
        then have "find_row cur t = Some p'" using fr adv by (auto simp: find_row_def)
        then show ?thesis using ms adv True s fr assms
          by (simp add: classify_def stamp_if_changed_incoming)
      next
        case F2: False
        then have "t < datetime (snd p')" using advance_head[OF adv] by simp
        then have "find_row cur t = None" using find_row_none_if_above[of p' rest' t] s fr adv by auto
        then show ?thesis using ms adv F2 s fr assms
          by (simp add: classify_def)
      qed
    qed
  qed
qed

lemma classify_cong:
  "find_row cur' (the (d ''datetime'')) = find_row cur (the (d ''datetime'')) \<Longrightarrow> classify q cur' d = classify q cur d"
  by (simp add: classify_def)

lemma scan_classify:
  assumes "sorted (map (\<lambda>p. datetime (snd p)) cur)"
    and "sorted (map (\<lambda>d. the (d ''datetime'')) ds)"
    and "\<forall>d \<in> set ds. d ''datetime'' \<noteq> None \<and> d ''value'' \<noteq> None \<and> d ''qualifiers'' \<noteq> None"
  shows "scan q cur ds = Inr (map (\<lambda>d. fst (classify q cur d)) ds, List.map_filter (\<lambda>d. snd (classify q cur d)) ds)"
  using assms
proof (induction ds arbitrary: cur)
  case Nil
  then show ?case by (simp add: List.map_filter_simps)
next
  case (Cons d ds)
  obtain t where t: "d ''datetime'' = Some t" using Cons.prems(3) by auto
  obtain cur' where c: "merge_step q cur d = Inr (cur', classify q cur d)"
     "sorted (map (\<lambda>p. datetime (snd p)) cur')"
     "\<forall>t'. t \<le> t' \<longrightarrow> find_row cur' t' = find_row cur t'"
    using merge_step_classify[of cur d t q] Cons.prems(1) t Cons.prems(3) by auto
  have ih: "scan q cur' ds = Inr (map (\<lambda>d. fst (classify q cur' d)) ds, List.map_filter (\<lambda>d. snd (classify q cur' d)) ds)"
    using Cons.IH[of cur'] c(2) Cons.prems by simp
  have eq: "\<forall>d' \<in> set ds. classify q cur' d' = classify q cur d'"
  proof
    fix d' assume "d' \<in> set ds"
    then have "t \<le> the (d' ''datetime'')" using Cons.prems(2) t by auto
    then show "classify q cur' d' = classify q cur d'" using c(3) classify_cong by blast
  qed
  have m1: "map (\<lambda>d. fst (classify q cur' d)) ds = map (\<lambda>d. fst (classify q cur d)) ds" using eq by simp
  have m2: "List.map_filter (\<lambda>d. snd (classify q cur' d)) ds = List.map_filter (\<lambda>d. snd (classify q cur d)) ds"
    using eq by (simp add: List.map_filter_def cong: filter_cong map_cong)
  show ?case using c(1) ih m1 m2
    by (cases "classify q cur d") (auto simp: List.map_filter_simps split: option.splits)
qed

lemma incoming_keys:
  assumes "incoming d"
  shows "d ''datetime'' \<noteq> None \<and> d ''value'' \<noteq> None \<and> d ''qualifiers'' \<noteq> None \<and>
     d ''last_modified'' = None \<and> d ''__flag_for_append'' = None"
proof -
  have sub: "{''datetime'', ''value'', ''qualifiers''} \<subseteq> dom d"
    and sup: "dom d \<subseteq> {''datetime'', ''value'', ''qualifiers'', ''last_checked''}"
    using assms unfolding incoming_def by simp_all
  have a: "''datetime'' \<in> dom d" using sub by simp
  have b: "''value'' \<in> dom d" using sub by simp
  have c: "''qualifiers'' \<in> dom d" using sub by simp
  have "''last_modified'' \<in> dom d \<Longrightarrow> False"
    using subsetD[OF sup, of "''last_modified''"] by simp
  then have e: "d ''last_modified'' = None" by (cases "d ''last_modified''") (auto simp: dom_def)
  have "''__flag_for_append'' \<in> dom d \<Longrightarrow> False"
    using subsetD[OF sup, of "''__flag_for_append''"] by simp
  then have f: "d ''__flag_for_append'' = None" by (cases "d ''__flag_for_append''") (auto simp: dom_def)
  show ?thesis using a b c e f by (simp add: dom_def)
qed

lemma flag_for_append_flag: "flag_for_append d ''__flag_for_append'' \<noteq> None"
  by (simp add: flag_for_append_def)

lemma incoming_columns:
  assumes "incoming d"
  shows "dom d \<subseteq> column_names"
proof
  fix k assume "k \<in> dom d"
  then have "k \<in> {''datetime'', ''value'', ''qualifiers'', ''last_checked''}"
    using assms unfolding incoming_def by (simp add: subset_iff)
  then show "k \<in> column_names" unfolding column_names_def by (elim insertE emptyE) simp_all
qed

lemma incoming_flagged_row:
  assumes "incoming d"
  shows "update_row_with_dict default_row (d(''last_modified'' \<mapsto> q)) = Inr (appended_row q d)"
proof -
  have "''last_modified'' \<in> column_names" by (simp add: column_names_def)
  then have "dom (d(''last_modified'' \<mapsto> q)) \<subseteq> column_names"
    using incoming_columns[OF assms] by simp
  then show ?thesis by (simp add: update_row_with_dict_def appended_row_def)
qed

lemma incoming_unflag:
  assumes "incoming d"
  shows "((flag_for_append d)(''last_modified'' \<mapsto> q))(''__flag_for_append'' := None) =
         d(''last_modified'' \<mapsto> q)"
proof (rule ext)
  fix k
  have "d ''__flag_for_append'' = None" using incoming_keys[OF assms] by simp
  then show "(((flag_for_append d)(''last_modified'' \<mapsto> q))(''__flag_for_append'' := None)) k =
        (d(''last_modified'' \<mapsto> q)) k"
    by (cases "k = ''__flag_for_append''") (simp_all add: flag_for_append_def)
qed

lemma stamped_no_flag: "incoming d \<Longrightarrow> stamped q r d ''__flag_for_append'' = None"
  using incoming_keys[of d] by (simp add: stamped_def)

lemma append_flagged_classify:
  assumes "\<forall>d \<in> set ds. incoming d"
  shows "append_flagged q T (map (\<lambda>d. fst (classify q cur d)) ds) =
           (T\<lparr>rows := rows T @ map (appended_row q) (filter (unmatched cur) ds),
              oplog := oplog T @ map (\<lambda>d. AppendRow (appended_row q d)) (filter (unmatched cur) ds)\<rparr>,
            Inr (map (final_dict q cur) ds))"
  using assms
proof (induction ds arbitrary: T)
  case Nil
  then show ?case by simp
next
  case (Cons d ds)
  have inc: "incoming d" using Cons.prems by simp
  show ?case
  proof (cases "find_row cur (the (d ''datetime''))")
    case None
    have c: "fst (classify q cur d) = flag_for_append d" using None by (simp add: classify_def)
    have ih: "append_flagged q (row_append (appended_row q d) T) (map (\<lambda>d. fst (classify q cur d)) ds) =
           ((row_append (appended_row q d) T)\<lparr>rows := rows (row_append (appended_row q d) T) @ map (appended_row q) (filter (unmatched cur) ds),
              oplog := oplog (row_append (appended_row q d) T) @ map (\<lambda>d. AppendRow (appended_row q d)) (filter (unmatched cur) ds)\<rparr>,
            Inr (map (final_dict q cur) ds))"
      using Cons.IH[of "row_append (appended_row q d) T"] Cons.prems by simp
    have u: "unmatched cur d" using None by (simp add: unmatched_def)
    have f: "final_dict q cur d = d(''last_modified'' \<mapsto> q)" using None by (simp add: final_dict_def)
    show ?thesis
      using inc ih
      by (simp add: c u f flag_for_append_flag incoming_flagged_row incoming_unflag
            row_append_def Let_def)
  next
    case (Some p)
    have c: "fst (classify q cur d) = stamped q (snd p) d" using Some by (simp add: classify_def)
    have u: "\<not> unmatched cur d" using Some by (simp add: unmatched_def)
    have f: "final_dict q cur d = stamped q (snd p) d" using Some by (simp add: final_dict_def)
    show ?thesis
      using inc Cons.IH[of T] Cons.prems
      by (simp add: c u f stamped_no_flag)
  qed
qed

lemma apply_update_rows_closed:
  "apply_update_rows T us =
     T\<lparr>rows := set_rows us (rows T),
       oplog := oplog T @ concat (map (\<lambda>p. [SetRow (fst p) (snd p), Flush]) us)\<rparr>"
  by (induction us arbitrary: T) (simp_all add: set_rows_def table_flush_def table_setitem_def)

lemma incoming_all_keys:
  assumes "\<forall>d \<in> set ds. incoming d"
  shows "\<forall>d \<in> set ds. d ''datetime'' \<noteq> None \<and> d ''value'' \<noteq> None \<and> d ''qualifiers'' \<noteq> None"
proof
  fix d assume "d \<in> set ds"
  then have "incoming d" using assms by simp
  then show "d ''datetime'' \<noteq> None \<and> d ''value'' \<noteq> None \<and> d ''qualifiers'' \<noteq> None"
    using incoming_keys[of d] by simp
qed

lemma sort_update_values_incoming:
  assumes "\<forall>d \<in> set ds. incoming d"
  shows "sort_update_values ds = Inr (sort_key (\<lambda>d. the (d ''datetime'')) ds)"
proof -
  have "\<not> (\<exists>d \<in> set ds. d ''datetime'' = None)" using incoming_all_keys[OF assms] by simp
  then show ?thesis unfolding sort_update_values_def by (simp only: if_False)
qed

lemma itersorted_sorted: "sorted (map (\<lambda>p. datetime (snd p)) (itersorted rs))"
  by (simp add: itersorted_def)

lemma merge_closed_form:
  assumes "\<forall>d \<in> set ds. incoming d"
  shows "update_or_append_sortable T ds q =
     (T\<lparr>rows := set_rows (matches q (rows T) ds) (rows T) @ appends q (rows T) ds,
        oplog := oplog T @ concat (map (\<lambda>p. [SetRow (fst p) (snd p), Flush]) (matches q (rows T) ds))
                   @ map AppendRow (appends q (rows T) ds) @ [Flush]\<rparr>,
      Inr (map (final_dict q (itersorted (rows T))) (sorted_batch ds)))"
proof -
  let ?sb = "sorted_batch ds"
  let ?cur = "itersorted (rows T)"
  have inc: "\<forall>d \<in> set ?sb. incoming d" using assms by (simp add: sorted_batch_def)
  have keys: "\<forall>d \<in> set ?sb. d ''datetime'' \<noteq> None \<and> d ''value'' \<noteq> None \<and> d ''qualifiers'' \<noteq> None"
    using incoming_all_keys[OF inc] .
  have srt: "sorted (map (\<lambda>d. the (d ''datetime'')) ?sb)" by (simp add: sorted_batch_def)
  have sc: "scan q ?cur ?sb = Inr (map (\<lambda>d. fst (classify q ?cur d)) ?sb, matches q (rows T) ds)"
    using scan_classify[of ?cur ?sb q] itersorted_sorted[of "rows T"] srt keys by (simp add: matches_def)
  have ap: "append_flagged q (apply_update_rows T (matches q (rows T) ds)) (map (\<lambda>d. fst (classify q ?cur d)) ?sb) =
      ((apply_update_rows T (matches q (rows T) ds))\<lparr>rows := rows (apply_update_rows T (matches q (rows T) ds)) @ appends q (rows T) ds,
              oplog := oplog (apply_update_rows T (matches q (rows T) ds)) @ map AppendRow (appends q (rows T) ds)\<rparr>,
            Inr (map (final_dict q ?cur) ?sb))"
    using append_flagged_classify[OF inc, of q "apply_update_rows T (matches q (rows T) ds)" ?cur]
    by (simp add: appends_def comp_def)
  show ?thesis
    unfolding update_or_append_sortable_def
    using sort_update_values_incoming[OF assms] sc ap
    by (simp add: sorted_batch_def[symmetric] apply_update_rows_closed table_flush_def)
qed

lemma set_itersorted: "set (itersorted rs) = set (enumerate 0 rs)"
  by (simp add: itersorted_def)

lemma find_row_itersorted_Some:
  assumes "find_row (itersorted rs) t = Some p"
  shows "fst p < length rs \<and> snd p = rs ! fst p \<and> datetime (snd p) = t"
proof -
  have "p \<in> set (itersorted rs)" and dt: "datetime (snd p) = t"
    using assms unfolding find_row_def by (auto simp: find_Some_iff)
  then have "p \<in> set (enumerate 0 rs)" by (simp add: set_itersorted)
  then have "fst p < length rs \<and> snd p = rs ! fst p"
    using in_set_enumerate_eq[of p 0 rs] by simp
  then show ?thesis using dt by simp
qed

lemma find_row_itersorted_None:
  "find_row (itersorted rs) t = None \<longleftrightarrow> t \<notin> datetime ` set rs"
proof -
  have "find_row (itersorted rs) t = None \<longleftrightarrow> (\<forall>p \<in> set (enumerate 0 rs). datetime (snd p) \<noteq> t)"
    unfolding find_row_def find_None_iff set_itersorted by blast
  also have "\<dots> \<longleftrightarrow> (\<forall>r \<in> set rs. datetime r \<noteq> t)"
  proof
    assume a: "\<forall>p \<in> set (enumerate 0 rs). datetime (snd p) \<noteq> t"
    show "\<forall>r \<in> set rs. datetime r \<noteq> t"
    proof
      fix r assume "r \<in> set rs"
      then obtain n where "n < length rs" "rs ! n = r" by (auto simp: in_set_conv_nth)
      then have "(n, r) \<in> set (enumerate 0 rs)" using in_set_enumerate_eq[of "(n, r)" 0 rs] by simp
      then show "datetime r \<noteq> t" using a by fastforce
    qed
  next
    assume a: "\<forall>r \<in> set rs. datetime r \<noteq> t"
    show "\<forall>p \<in> set (enumerate 0 rs). datetime (snd p) \<noteq> t"
    proof
      fix p assume "p \<in> set (enumerate 0 rs)"
      then have "fst p < length rs \<and> rs ! fst p = snd p" using in_set_enumerate_eq[of p 0 rs] by simp
      then have "snd p \<in> set rs" using nth_mem[of "fst p" rs] by auto
      then show "datetime (snd p) \<noteq> t" using a by simp
    qed
  qed
  finally show ?thesis by auto
qed

lemma find_row_itersorted_distinct:
  assumes "distinct (map datetime rs)" and "n < length rs"
  shows "find_row (itersorted rs) (datetime (rs ! n)) = Some (n, rs ! n)"
proof (cases "find_row (itersorted rs) (datetime (rs ! n))")
  case None
  then have "datetime (rs ! n) \<notin> datetime ` set rs" by (simp add: find_row_itersorted_None)
  then show ?thesis using assms(2) by simp
next
  case (Some p)
  then have p: "fst p < length rs" "snd p = rs ! fst p" "datetime (snd p) = datetime (rs ! n)"
    using find_row_itersorted_Some[of rs "datetime (rs ! n)" p] by auto
  then have "map datetime rs ! fst p = map datetime rs ! n" using assms(2) by simp
  then have "fst p = n"
    using nth_eq_iff_index_eq[of "map datetime rs" "fst p" n] assms p(1) by simp
  then show ?thesis using Some p(2) by (cases p) simp
qed

lemma updated_row_tuple_datetime:
  "d ''datetime'' = Some t \<Longrightarrow> datetime (updated_row_tuple r d) = t"
  by (simp add: updated_row_tuple_def dict_get_def)

lemma stamped_datetime: "stamped q r d ''datetime'' = d ''datetime''"
  by (simp add: stamped_def)

lemma length_set_rows: "length (set_rows us rs) = length rs"
  unfolding set_rows_def by (induction us arbitrary: rs) simp_all

lemma set_rows_snoc: "set_rows (us @ [p]) rs = (set_rows us rs)[fst p := cut_row (snd p)]"
  by (simp add: set_rows_def)

lemma set_rows_nth_last:
  assumes "n < length rs"
  shows "set_rows us rs ! n =
           (if filter (\<lambda>p. fst p = n) us = [] then rs ! n
            else cut_row (snd (last (filter (\<lambda>p. fst p = n) us))))"
proof (induction us rule: rev_induct)
  case Nil
  then show ?case by (simp add: set_rows_def)
next
  case (snoc p us)
  have len: "n < length (set_rows us rs)" using assms by (simp add: length_set_rows)
  show ?case
  proof (cases "fst p = n")
    case True
    then show ?thesis using len by (simp add: set_rows_snoc)
  next
    case False
    then show ?thesis using snoc.IH by (simp add: set_rows_snoc)
  qed
qed

lemma set_rows_keeps_datetime:
  assumes "\<forall>p \<in> set us. fst p < length rs \<and> datetime (cut_row (snd p)) = datetime (rs ! fst p)"
  shows "map datetime (set_rows us rs) = map datetime rs"
  using assms
proof (induction us arbitrary: rs)
  case Nil
  then show ?case by (simp add: set_rows_def)
next
  case (Cons p us)
  let ?rs = "rs[fst p := cut_row (snd p)]"
  have p: "fst p < length rs" "datetime (cut_row (snd p)) = datetime (rs ! fst p)"
    using Cons.prems by simp_all
  have eq: "map datetime ?rs = map datetime rs"
    using p by (simp add: map_update list_update_same_conv)
  have "\<forall>p' \<in> set us. fst p' < length ?rs \<and> datetime (cut_row (snd p')) = datetime (?rs ! fst p')"
  proof
    fix p' assume a: "p' \<in> set us"
    then have b: "fst p' < length rs" "datetime (cut_row (snd p')) = datetime (rs ! fst p')"
      using Cons.prems by simp_all
    have "map datetime ?rs ! fst p' = map datetime rs ! fst p'" using eq by simp
    then have "datetime (?rs ! fst p') = datetime (rs ! fst p')" using b(1) by simp
    then show "fst p' < length ?rs \<and> datetime (cut_row (snd p')) = datetime (?rs ! fst p')"
      using b by simp
  qed
  then have "map datetime (set_rows us ?rs) = map datetime ?rs" by (rule Cons.IH)
  then show ?case using eq by (simp add: set_rows_def)
qed

lemma matches_general:
  assumes "\<forall>d \<in> set xs. d ''datetime'' \<noteq> None"
  shows "List.map_filter (\<lambda>d. snd (classify q cur d)) xs =
         map (\<lambda>d. let p = the (find_row cur (the (d ''datetime'')))
                   in (fst p, updated_row_tuple (snd p) (stamped q (snd p) d)))
             (filter (\<lambda>d. \<not> unmatched cur d) xs)"
  using assms
proof (induction xs)
  case Nil
  then show ?case by (simp add: List.map_filter_simps)
next
  case (Cons d xs)
  then show ?case
    by (cases "find_row cur (the (d ''datetime''))")
       (simp_all add: List.map_filter_simps classify_def unmatched_def Let_def)
qed

lemma merge_rows:
  assumes "\<forall>d \<in> set ds. incoming d"
  shows "rows (fst (update_or_append_sortable T ds q)) =
           set_rows (matches q (rows T) ds) (rows T) @ appends q (rows T) ds"
  by (simp add: merge_closed_form[OF assms])

lemma sorted_batch_incoming:
  "\<forall>d \<in> set ds. incoming d \<Longrightarrow> \<forall>d \<in> set (sorted_batch ds). incoming d"
  by (simp add: sorted_batch_def)

lemma sorted_batch_keys:
  assumes "\<forall>d \<in> set ds. incoming d"
  shows "\<forall>d \<in> set (sorted_batch ds). d ''datetime'' \<noteq> None"
  using incoming_all_keys[OF sorted_batch_incoming[OF assms]] by simp

lemma matches_eq:
  assumes "\<forall>d \<in> set ds. incoming d"
  shows "matches q rs ds =
         map (\<lambda>d. let p = the (find_row (itersorted rs) (the (d ''datetime'')))
                   in (fst p, updated_row_tuple (snd p) (stamped q (snd p) d)))
             (filter (\<lambda>d. \<not> unmatched (itersorted rs) d) (sorted_batch ds))"
  unfolding matches_def using matches_general[OF sorted_batch_keys[OF assms]] by simp

lemma matches_mem:
  assumes "\<forall>d \<in> set ds. incoming d" and "p \<in> set (matches q rs ds)"
  shows "\<exists>d \<in> set ds. d ''datetime'' = Some (datetime (rs ! fst p)) \<and> fst p < length rs \<and>
           snd p = updated_row_tuple (rs ! fst p) (stamped q (rs ! fst p) d)"
proof -
  obtain d where d: "d \<in> set (sorted_batch ds)" "\<not> unmatched (itersorted rs) d"
    and p: "p = (let p0 = the (find_row (itersorted rs) (the (d ''datetime'')))
                 in (fst p0, updated_row_tuple (snd p0) (stamped q (snd p0) d)))"
    using assms(2) unfolding matches_eq[OF assms(1)] by auto
  obtain p0 where p0: "find_row (itersorted rs) (the (d ''datetime'')) = Some p0"
    using d(2) by (auto simp: unmatched_def)
  have f: "fst p0 < length rs" "snd p0 = rs ! fst p0" "datetime (snd p0) = the (d ''datetime'')"
    using find_row_itersorted_Some[OF p0] by auto
  have k: "d ''datetime'' \<noteq> None" using sorted_batch_keys[OF assms(1)] d(1) by simp
  have "d \<in> set ds" using d(1) by (simp add: sorted_batch_def)
  moreover have "fst p = fst p0" "snd p = updated_row_tuple (snd p0) (stamped q (snd p0) d)"
    using p p0 by (simp_all add: Let_def)
  ultimately show ?thesis using f k by auto
qed

lemma fetched_incoming: "fetched d \<Longrightarrow> incoming d"
  by (simp add: fetched_def)

lemma fetched_all_incoming: "\<forall>d \<in> set ds. fetched d \<Longrightarrow> \<forall>d \<in> set ds. incoming d"
  by (simp add: fetched_def)

lemma fetched_take:
  assumes "fetched d"
  shows "d ''datetime'' = Some t \<Longrightarrow> take 26 t = t"
    and "d ''value'' = Some v \<Longrightarrow> take 20 v = v"
    and "d ''qualifiers'' = Some qs \<Longrightarrow> take 20 qs = qs"
    and "d ''last_checked'' = Some c \<Longrightarrow> take 26 c = c"
  using assms by (simp_all add: fetched_def fits_columns_def fits_key_def)

lemma matches_keep_datetime:
  assumes "\<forall>d \<in> set ds. fetched d"
  shows "\<forall>p \<in> set (matches q rs ds).
           fst p < length rs \<and> datetime (cut_row (snd p)) = datetime (rs ! fst p)"
proof
  fix p assume "p \<in> set (matches q rs ds)"
  then obtain d where d: "d \<in> set ds" "d ''datetime'' = Some (datetime (rs ! fst p))"
      "fst p < length rs" "snd p = updated_row_tuple (rs ! fst p) (stamped q (rs ! fst p) d)"
    using matches_mem[OF fetched_all_incoming[OF assms]] by blast
  have "datetime (snd p) = datetime (rs ! fst p)"
    using d(2,4) updated_row_tuple_datetime[of "stamped q (rs ! fst p) d" "datetime (rs ! fst p)" "rs ! fst p"]
    by (simp add: stamped_datetime)
  moreover have "take 26 (datetime (rs ! fst p)) = datetime (rs ! fst p)"
    using fetched_take(1)[of d] d(1,2) assms by simp
  ultimately show "fst p < length rs \<and> datetime (cut_row (snd p)) = datetime (rs ! fst p)"
    using d(3) by (simp add: cut_row_def)
qed

lemma appended_row_fields:
  assumes "fetched d"
  shows "d ''datetime'' = Some (datetime (appended_row q d))"
    and "d ''value'' = Some (value_col (appended_row q d))"
    and "d ''qualifiers'' = Some (qualifiers (appended_row q d))"
    and "last_modified (appended_row q d) = take 26 q"
    and "last_checked (appended_row q d) = take 26 (dict_get d ''last_checked'' [])"
proof -
  obtain t v qs where k: "d ''datetime'' = Some t" "d ''value'' = Some v" "d ''qualifiers'' = Some qs"
    using incoming_keys[OF fetched_incoming[OF assms]] by auto
  have c: "take 26 t = t" "take 20 v = v" "take 20 qs = qs"
    using fetched_take[OF assms] k by simp_all
  show "d ''datetime'' = Some (datetime (appended_row q d))"
    and "d ''value'' = Some (value_col (appended_row q d))"
    and "d ''qualifiers'' = Some (qualifiers (appended_row q d))"
    and "last_modified (appended_row q d) = take 26 q"
    and "last_checked (appended_row q d) = take 26 (dict_get d ''last_checked'' [])"
    using k c
    by (simp_all add: appended_row_def updated_row_tuple_def dict_get_def default_row_def cut_row_def)
qed

lemma appends_datetime:
  assumes "\<forall>d \<in> set ds. fetched d"
  shows "map datetime (appends q rs ds) =
         map (\<lambda>d. the (d ''datetime'')) (filter (unmatched (itersorted rs)) (sorted_batch ds))"
proof -
  have "\<forall>d \<in> set (filter (unmatched (itersorted rs)) (sorted_batch ds)).
          datetime (appended_row q d) = the (d ''datetime'')"
  proof
    fix d assume "d \<in> set (filter (unmatched (itersorted rs)) (sorted_batch ds))"
    then have "fetched d" using assms by (simp add: sorted_batch_def)
    then show "datetime (appended_row q d) = the (d ''datetime'')"
      using appended_row_fields(1)[of d q] by simp
  qed
  then show ?thesis unfolding appends_def by simp
qed

lemma merged_datetimes:
  assumes "\<forall>d \<in> set ds. fetched d"
  shows "map datetime (rows (fst (update_or_append_sortable T ds q))) =
         map datetime (rows T) @
         map (\<lambda>d. the (d ''datetime'')) (filter (unmatched (itersorted (rows T))) (sorted_batch ds))"
  using merge_rows[OF fetched_all_incoming[OF assms]]
    set_rows_keeps_datetime[OF matches_keep_datetime[OF assms]] appends_datetime[OF assms]
  by simp

lemma merged_length:
  assumes "\<forall>d \<in> set ds. incoming d"
  shows "length (rows T) \<le> length (rows (fst (update_or_append_sortable T ds q)))"
  using merge_rows[OF assms] by (simp add: length_set_rows)

lemma unmatched_iff:
  "unmatched (itersorted rs) d \<longleftrightarrow> the (d ''datetime'') \<notin> datetime ` set rs"
  by (simp add: unmatched_def find_row_itersorted_None)

lemma flushes_append: "flushes (xs @ ys) = flushes xs + flushes ys"
  by (simp add: flushes_def)

lemma flushes_updates:
  "flushes (concat (map (\<lambda>p. [SetRow (fst p) (snd p), Flush]) us)) = length us"
  by (induction us) (simp_all add: flushes_def)

lemma flushes_appends: "flushes (map AppendRow aps) = 0"
  by (induction aps) (simp_all add: flushes_def)

lemma length_matches:
  assumes "\<forall>d \<in> set ds. incoming d"
  shows "length (matches q rs ds) =
         length (filter (\<lambda>d. the (d ''datetime'') \<in> datetime ` set rs) ds)"
proof -
  have "length (matches q rs ds) =
        length (filter (\<lambda>d. \<not> unmatched (itersorted rs) d) (sorted_batch ds))"
    by (simp add: matches_eq[OF assms])
  also have "\<dots> = length (filter (\<lambda>d. the (d ''datetime'') \<in> datetime ` set rs) (sorted_batch ds))"
    by (simp add: unmatched_iff)
  also have "\<dots> = length (filter (\<lambda>d. the (d ''datetime'') \<in> datetime ` set rs) ds)"
  proof -
    have "mset (filter (\<lambda>d. the (d ''datetime'') \<in> datetime ` set rs) (sorted_batch ds)) =
          mset (filter (\<lambda>d. the (d ''datetime'') \<in> datetime ` set rs) ds)"
      unfolding sorted_batch_def by (simp only: mset_filter mset_sort)
    then show ?thesis by (rule mset_eq_length)
  qed
  finally show ?thesis .
qed

lemma sorted_batch_filter:
  "filter (\<lambda>d. the (d ''datetime'') = t) (sorted_batch ds) =
   filter (\<lambda>d. the (d ''datetime'') = t) ds"
  unfolding sorted_batch_def by (rule sort_key_stable)

lemma final_row:
  assumes inc: "\<forall>d \<in> set ds. incoming d"
    and dt: "distinct (map datetime (rows T))"
    and n: "n < length (rows T)"
  shows "rows (fst (update_or_append_sortable T ds q)) ! n =
           (if filter (\<lambda>d. d ''datetime'' = Some (datetime (rows T ! n))) ds = [] then rows T ! n
            else cut_row (updated_row_tuple (rows T ! n)
                   (stamped q (rows T ! n)
                      (last (filter (\<lambda>d. d ''datetime'' = Some (datetime (rows T ! n))) ds)))))"
proof -
  let ?rs = "rows T"
  let ?cur = "itersorted ?rs"
  let ?t = "datetime (?rs ! n)"
  let ?g = "\<lambda>d. let p = the (find_row ?cur (the (d ''datetime'')))
                 in (fst p, updated_row_tuple (snd p) (stamped q (snd p) d))"
  let ?F = "filter (\<lambda>d. \<not> unmatched ?cur d) (sorted_batch ds)"
  let ?fs = "filter (\<lambda>d. d ''datetime'' = Some ?t) ds"
  have us: "matches q ?rs ds = map ?g ?F" by (rule matches_eq[OF inc])
  have fn: "find_row ?cur ?t = Some (n, ?rs ! n)" by (rule find_row_itersorted_distinct[OF dt n])
  have keys: "\<forall>d \<in> set (sorted_batch ds). d ''datetime'' \<noteq> None"
    by (rule sorted_batch_keys[OF inc])
  have iff: "\<forall>d \<in> set (sorted_batch ds).
               (\<not> unmatched ?cur d \<and> fst (?g d) = n) = (the (d ''datetime'') = ?t)"
  proof
    fix d assume "d \<in> set (sorted_batch ds)"
    show "(\<not> unmatched ?cur d \<and> fst (?g d) = n) = (the (d ''datetime'') = ?t)"
    proof
      assume a: "\<not> unmatched ?cur d \<and> fst (?g d) = n"
      then obtain p0 where p0: "find_row ?cur (the (d ''datetime'')) = Some p0"
        by (auto simp: unmatched_def)
      have "snd p0 = ?rs ! fst p0" "datetime (snd p0) = the (d ''datetime'')"
        using find_row_itersorted_Some[OF p0] by auto
      moreover have "fst p0 = n" using a p0 by (simp add: Let_def)
      ultimately show "the (d ''datetime'') = ?t" by simp
    next
      assume "the (d ''datetime'') = ?t"
      then show "\<not> unmatched ?cur d \<and> fst (?g d) = n" using fn by (simp add: unmatched_def Let_def)
    qed
  qed
  have "filter (\<lambda>p. fst p = n) (matches q ?rs ds) =
        map ?g (filter (\<lambda>d. fst (?g d) = n) ?F)"
    unfolding us by (simp only: filter_map comp_def)
  also have "filter (\<lambda>d. fst (?g d) = n) ?F =
             filter (\<lambda>d. \<not> unmatched ?cur d \<and> fst (?g d) = n) (sorted_batch ds)"
    by (simp only: filter_filter conj_commute)
  also have "\<dots> = filter (\<lambda>d. the (d ''datetime'') = ?t) (sorted_batch ds)"
    using iff by (simp cong: filter_cong)
  also have "\<dots> = filter (\<lambda>d. the (d ''datetime'') = ?t) ds" by (rule sorted_batch_filter)
  also have "\<dots> = ?fs"
  proof (rule filter_cong[OF refl])
    fix d assume "d \<in> set ds"
    then have "d ''datetime'' \<noteq> None" using incoming_all_keys[OF inc] by simp
    then show "(the (d ''datetime'') = ?t) = (d ''datetime'' = Some ?t)" by auto
  qed
  finally have fl: "filter (\<lambda>p. fst p = n) (matches q ?rs ds) = map ?g ?fs" .
  have g: "\<forall>d \<in> set ?fs. ?g d = (n, updated_row_tuple (?rs ! n) (stamped q (?rs ! n) d))"
    using fn by (simp add: Let_def)
  have r: "rows (fst (update_or_append_sortable T ds q)) ! n = set_rows (matches q ?rs ds) ?rs ! n"
    using merge_rows[OF inc, of T q] n by (simp add: nth_append length_set_rows)
  show ?thesis
  proof (cases "?fs = []")
    case True
    then show ?thesis unfolding r set_rows_nth_last[OF n] fl by simp
  next
    case False
    then have "last ?fs \<in> set ?fs" by (rule last_in_set)
    then have "?g (last ?fs) = (n, updated_row_tuple (?rs ! n) (stamped q (?rs ! n) (last ?fs)))"
      using g by blast
    then have "snd (last (map ?g ?fs)) = updated_row_tuple (?rs ! n) (stamped q (?rs ! n) (last ?fs))"
      using False by (simp add: last_map)
    then show ?thesis unfolding r set_rows_nth_last[OF n] fl using False by simp
  qed
qed

lemma merged_distinct_new:
  assumes inc: "\<forall>d \<in> set ds. fetched d"
    and dn: "distinct (map (\<lambda>d. the (d ''datetime''))
               (filter (\<lambda>d. the (d ''datetime'') \<notin> datetime ` set (rows T)) ds))"
    and dt: "distinct (map datetime (rows T))"
  shows "distinct (map datetime (rows (fst (update_or_append_sortable T ds q))))"
proof -
  let ?cur = "itersorted (rows T)"
  let ?P = "\<lambda>d. the (d ''datetime'') \<notin> datetime ` set (rows T)"
  let ?A = "filter (unmatched ?cur) (sorted_batch ds)"
  have "unmatched ?cur = ?P" by (rule ext) (simp add: unmatched_iff)
  then have A: "?A = filter ?P (sorted_batch ds)" by simp
  have "mset (map (\<lambda>d. the (d ''datetime'')) (filter ?P (sorted_batch ds))) =
        mset (map (\<lambda>d. the (d ''datetime'')) (filter ?P ds))"
    unfolding sorted_batch_def by (simp only: mset_map mset_filter mset_sort)
  then have a: "distinct (map (\<lambda>d. the (d ''datetime'')) ?A)"
    unfolding A using dn mset_eq_imp_distinct_iff by blast
  have b: "\<forall>d \<in> set ?A. the (d ''datetime'') \<notin> set (map datetime (rows T))"
    by (simp add: unmatched_iff)
  have "set (map datetime (rows T)) \<inter> set (map (\<lambda>d. the (d ''datetime'')) ?A) = {}"
  proof (rule ccontr)
    assume "set (map datetime (rows T)) \<inter> set (map (\<lambda>d. the (d ''datetime'')) ?A) \<noteq> {}"
    then obtain t where t: "t \<in> set (map datetime (rows T))" "t \<in> set (map (\<lambda>d. the (d ''datetime'')) ?A)"
      by blast
    then obtain d where "d \<in> set ?A" "t = the (d ''datetime'')" by auto
    then show False using b t(1) by simp
  qed
  then show ?thesis unfolding merged_datetimes[OF inc] using a dt by simp
qed

lemma sorted_values_perm: "mset (sorted_values T) = mset (rows T)"
  unfolding sorted_values_def itersorted_def
  by (simp only: mset_map mset_sort) (simp only: mset_map[symmetric] map_snd_enumerate)

lemma sorted_values_sorted: "sorted (map datetime (sorted_values T))"
  using itersorted_sorted[of "rows T"] by (simp add: sorted_values_def comp_def)

lemma sorted_values_strict:
  assumes "distinct (map datetime (rows T))"
  shows "sorted_wrt (<) (map datetime (sorted_values T))"
proof -
  have "mset (map datetime (sorted_values T)) = mset (map datetime (rows T))"
    using sorted_values_perm[of T] by simp
  then have "distinct (map datetime (sorted_values T))"
    using assms mset_eq_imp_distinct_iff by blast
  then show ?thesis using sorted_values_sorted[of T] by (simp only: strict_sorted_iff)
qed

lemma produced_row_agrees:
  assumes "fetched d"
    and "x = cut_row (updated_row_tuple r0 (stamped q r0 d)) \<or> x = appended_row q d"
  shows "cut_row (updated_row_tuple x (stamped q' x d)) = x"
proof -
  obtain t v qs where k: "d ''datetime'' = Some t" "d ''value'' = Some v" "d ''qualifiers'' = Some qs"
    "d ''last_modified'' = None"
    using incoming_keys[OF fetched_incoming[OF assms(1)]] by auto
  have c: "take 26 t = t" "take 20 v = v" "take 20 qs = qs"
    using fetched_take[OF assms(1)] k by simp_all
  have nc: "\<not> changed x d"
    using assms(2) k c
    by (auto simp: changed_def updated_row_tuple_def stamped_def appended_row_def dict_get_def
          default_row_def cut_row_def)
  then have s: "stamped q' x d = d" by (simp add: stamped_def)
  show ?thesis
    unfolding s using assms(2) k c
    by (cases "d ''last_checked''")
       (auto simp: updated_row_tuple_def stamped_def appended_row_def dict_get_def
          default_row_def cut_row_def)
qed

lemma merged_has_all:
  assumes inc: "\<forall>d \<in> set ds. fetched d" and d: "d \<in> set ds"
  shows "the (d ''datetime'') \<in> datetime ` set (rows (fst (update_or_append_sortable T ds q)))"
proof -
  let ?cur = "itersorted (rows T)"
  have dts: "map datetime (rows (fst (update_or_append_sortable T ds q))) = map datetime (rows T) @
         map (\<lambda>d. the (d ''datetime'')) (filter (unmatched ?cur) (sorted_batch ds))"
    by (rule merged_datetimes[OF inc])
  have "the (d ''datetime'') \<in> set (map datetime (rows (fst (update_or_append_sortable T ds q))))"
  proof (cases "unmatched ?cur d")
    case True
    have "d \<in> set (filter (unmatched ?cur) (sorted_batch ds))"
      using d True by (simp add: sorted_batch_def)
    then have "(\<lambda>d. the (d ''datetime'')) d \<in> (\<lambda>d. the (d ''datetime'')) `
          set (filter (unmatched ?cur) (sorted_batch ds))" by (rule imageI)
    then have "the (d ''datetime'') \<in> set (map (\<lambda>d. the (d ''datetime''))
          (filter (unmatched ?cur) (sorted_batch ds)))" by (simp only: set_map)
    then show ?thesis unfolding dts by simp
  next
    case False
    then have "the (d ''datetime'') \<in> datetime ` set (rows T)" by (simp add: unmatched_iff)
    then show ?thesis unfolding dts by simp
  qed
  then show ?thesis by simp
qed

lemma second_merge_rows:
  assumes inc: "\<forall>d \<in> set ds. fetched d"
    and dn: "distinct (map (\<lambda>d. the (d ''datetime''))
               (filter (\<lambda>d. the (d ''datetime'') \<notin> datetime ` set (rows T)) ds))"
    and dt: "distinct (map datetime (rows T))"
  shows "rows (fst (update_or_append_sortable (fst (update_or_append_sortable T ds q)) ds q)) =
         rows (fst (update_or_append_sortable T ds q))"
proof -
  let ?T1 = "fst (update_or_append_sortable T ds q)"
  let ?rs = "rows T"
  let ?rs1 = "rows ?T1"
  let ?rs2 = "rows (fst (update_or_append_sortable ?T1 ds q))"
  let ?cur = "itersorted ?rs"
  let ?P = "\<lambda>d. the (d ''datetime'') \<notin> datetime ` set ?rs"
  have inc': "\<forall>d \<in> set ds. incoming d" by (rule fetched_all_incoming[OF inc])
  have d1: "distinct (map datetime ?rs1)" by (rule merged_distinct_new[OF inc dn dt])
  have r1: "?rs1 = set_rows (matches q ?rs ds) ?rs @ appends q ?rs ds"
    by (rule merge_rows[OF inc'])
  have dts: "map datetime ?rs1 = map datetime ?rs @
         map (\<lambda>d. the (d ''datetime'')) (filter (unmatched ?cur) (sorted_batch ds))"
    by (rule merged_datetimes[OF inc])
  have "\<forall>d \<in> set (sorted_batch ds). \<not> unmatched (itersorted ?rs1) d"
  proof
    fix d assume "d \<in> set (sorted_batch ds)"
    then have "d \<in> set ds" by (simp add: sorted_batch_def)
    then show "\<not> unmatched (itersorted ?rs1) d"
      using merged_has_all[OF inc, of d T q] by (simp add: unmatched_iff)
  qed
  then have "filter (unmatched (itersorted ?rs1)) (sorted_batch ds) = []"
    by (simp add: filter_empty_conv)
  then have a2: "appends q ?rs1 ds = []" by (simp add: appends_def)
  have r2: "?rs2 = set_rows (matches q ?rs1 ds) ?rs1"
    using merge_rows[OF inc', of ?T1 q] a2 by simp
  have len: "length ?rs2 = length ?rs1" unfolding r2 by (rule length_set_rows)
  have "\<forall>n < length ?rs1. ?rs2 ! n = ?rs1 ! n"
  proof (intro allI impI)
    fix n assume n: "n < length ?rs1"
    let ?t = "datetime (?rs1 ! n)"
    let ?fs = "filter (\<lambda>d. d ''datetime'' = Some ?t) ds"
    have f2: "?rs2 ! n = (if ?fs = [] then ?rs1 ! n
        else cut_row (updated_row_tuple (?rs1 ! n) (stamped q (?rs1 ! n) (last ?fs))))"
      by (rule final_row[OF inc' d1 n])
    show "?rs2 ! n = ?rs1 ! n"
    proof (cases "?fs = []")
      case True
      then show ?thesis using f2 by simp
    next
      case False
      let ?d = "last ?fs"
      have "?d \<in> set ?fs" using False by (rule last_in_set)
      then have dd: "?d \<in> set ds" "?d ''datetime'' = Some ?t" by simp_all
      have fd: "fetched ?d" using inc dd(1) by simp
      have prod: "?rs1 ! n = cut_row (updated_row_tuple (?rs ! n) (stamped q (?rs ! n) ?d)) \<or>
                  ?rs1 ! n = appended_row q ?d"
      proof (cases "n < length ?rs")
        case True
        have "map datetime ?rs1 ! n = datetime (?rs ! n)"
          unfolding dts using True by (simp add: nth_append)
        then have t: "?t = datetime (?rs ! n)" using n by simp
        have "?rs1 ! n = (if filter (\<lambda>d. d ''datetime'' = Some (datetime (?rs ! n))) ds = [] then ?rs ! n
            else cut_row (updated_row_tuple (?rs ! n) (stamped q (?rs ! n)
                   (last (filter (\<lambda>d. d ''datetime'' = Some (datetime (?rs ! n))) ds)))))"
          by (rule final_row[OF inc' dt True])
        then show ?thesis using False unfolding t[symmetric] by simp
      next
        case F: False
        let ?A = "filter (unmatched ?cur) (sorted_batch ds)"
        have la: "length (set_rows (matches q ?rs ds) ?rs) = length ?rs" by (rule length_set_rows)
        have m: "n - length ?rs < length (appends q ?rs ds)" using n F r1 la by simp
        have e: "?rs1 ! n = appends q ?rs ds ! (n - length ?rs)"
          using F la unfolding r1 by (simp add: nth_append)
        have "appends q ?rs ds ! (n - length ?rs) \<in> set (appends q ?rs ds)" using m by simp
        then obtain d0 where d0: "d0 \<in> set ?A" "?rs1 ! n = appended_row q d0"
          using e unfolding appends_def by auto
        have d0s: "d0 \<in> set ds" "unmatched ?cur d0" using d0(1) by (simp_all add: sorted_batch_def)
        have fd0: "fetched d0" using inc d0s(1) by simp
        have k0: "d0 ''datetime'' = Some ?t"
          using appended_row_fields(1)[OF fd0, of q] d0(2) by simp
        have new0: "?P d0" using d0s(2) by (simp add: unmatched_iff)
        have newd: "?P ?d" using new0 k0 dd(2) by simp
        have m0: "d0 \<in> set (filter ?P ds)" and md: "?d \<in> set (filter ?P ds)"
          using d0s(1) new0 dd(1) newd by simp_all
        have inj: "inj_on (\<lambda>d. the (d ''datetime'')) (set (filter ?P ds))"
          using dn by (simp only: distinct_map)
        have eq: "the (d0 ''datetime'') = the (?d ''datetime'')" using k0 dd(2) by simp
        have "d0 = ?d" using inj_onD[OF inj eq m0 md] .
        then show ?thesis using d0(2) by simp
      qed
      have "cut_row (updated_row_tuple (?rs1 ! n) (stamped q (?rs1 ! n) ?d)) = ?rs1 ! n"
        by (rule produced_row_agrees[OF fd prod])
      then show ?thesis using f2 False by simp
    qed
  qed
  then show ?thesis using len by (simp add: nth_equalityI)
qed

lemma refresh_table_rows:
  "rows (fst (refresh_table T v ds q)) =
   rows (fst (update_or_append_sortable (T\<lparr>attr_variable := Some v\<rparr>) (stamp_last_checked q ds) q))"
  by (simp add: refresh_table_def table_flush_def split: prod.splits sum.splits)

lemma stamp_fetched:
  assumes "fetched d" and "length q \<le> 26"
  shows "fetched (d(''last_checked'' \<mapsto> q))"
proof -
  have sub: "{''datetime'', ''value'', ''qualifiers''} \<subseteq> dom d"
    and sup: "dom d \<subseteq> {''datetime'', ''value'', ''qualifiers'', ''last_checked''}"
    and fit: "fits_columns d"
    using assms(1) unfolding fetched_def incoming_def by simp_all
  have "{''datetime'', ''value'', ''qualifiers''} \<subseteq> dom (d(''last_checked'' \<mapsto> q))"
    using sub by (simp add: subset_insertI2)
  moreover have "dom (d(''last_checked'' \<mapsto> q)) \<subseteq>
      {''datetime'', ''value'', ''qualifiers'', ''last_checked''}"
    using sup by simp
  moreover have "fits_columns (d(''last_checked'' \<mapsto> q))"
    using fit assms(2) by (simp add: fits_columns_def fits_key_def)
  ultimately show ?thesis unfolding fetched_def incoming_def by simp
qed

lemma stamp_all_fetched:
  assumes "\<forall>d \<in> set ds. fetched d" and "length q \<le> 26"
  shows "\<forall>d \<in> set (stamp_last_checked q ds). fetched d"
  using assms stamp_fetched by (auto simp: stamp_last_checked_def)

lemma stamp_filter_last:
  assumes "d \<in> set ds" and "last (filter (\<lambda>x. x ''datetime'' = d ''datetime'') ds) = d"
    and "d ''datetime'' = Some t"
  shows "filter (\<lambda>x. x ''datetime'' = Some t) (stamp_last_checked q ds) \<noteq> []"
    and "last (filter (\<lambda>x. x ''datetime'' = Some t) (stamp_last_checked q ds)) =
         d(''last_checked'' \<mapsto> q)"
proof -
  let ?st = "\<lambda>v. v(''last_checked'' \<mapsto> q)"
  let ?fs = "filter (\<lambda>x. x ''datetime'' = Some t) ds"
  have e: "filter (\<lambda>x. x ''datetime'' = Some t) (stamp_last_checked q ds) = map ?st ?fs"
    unfolding stamp_last_checked_def by (simp add: filter_map comp_def)
  have ne: "?fs \<noteq> []" using assms(1,3) by (auto simp: filter_empty_conv)
  have l: "last ?fs = d" using assms(2,3) by simp
  show "filter (\<lambda>x. x ''datetime'' = Some t) (stamp_last_checked q ds) \<noteq> []"
    unfolding e using ne by simp
  show "last (filter (\<lambda>x. x ''datetime'' = Some t) (stamp_last_checked q ds)) =
         d(''last_checked'' \<mapsto> q)"
    unfolding e using ne l by (simp add: last_map)
qed

lemma stored_last_modified:
  assumes "cut_row r = r"
  shows "take 26 (last_modified r) = last_modified r"
proof -
  have "last_modified (cut_row r) = take 26 (last_modified r)" by (simp add: cut_row_def)
  then show ?thesis using assms by simp
qed

lemmas merge_eval_defs =
  update_or_append_sortable_def sort_update_values_def itersorted_def merge_step_def
  stamp_if_changed_def flag_for_append_def updated_row_tuple_def dict_get_def
  update_row_with_dict_def column_names_def default_row_def table_flush_def table_setitem_def
  row_append_def fetched_value_def example_table_def example_row_def empty_table_def
  flushes_def sorted_values_def cut_row_def stamp_last_checked_def refresh_table_def


section \<open>Resolving nodes, read-only and writable\<close>

lemma get_or_create_read_only:
  assumes "\<not> is_writable h5"
  shows "get_or_create h5 p nd = (h5, if get_node h5 p = None then None else Some p)"
  using assms by (simp add: get_or_create_def split: option.splits)

lemma get_or_create_found:
  assumes "get_node h5 p \<noteq> None"
  shows "get_or_create h5 p nd = (h5, Some p)"
  using assms by (auto simp: get_or_create_def split: option.splits)

lemma get_usgs_group_read_only:
  assumes "\<not> is_writable h5"
  shows "get_usgs_group h5 = (h5, if get_node h5 [''usgs''] = None then None else Some [''usgs''])"
  by (simp only: get_usgs_group_def get_or_create_read_only[OF assms])

lemma get_sites_table_read_only:
  assumes "\<not> is_writable h5"
  shows "get_sites_table h5 =
     (h5, if get_node h5 [''usgs''] = None \<or> get_node h5 [''usgs'', ''sites''] = None then None
          else Some [''usgs'', ''sites''])"
  unfolding get_sites_table_def get_usgs_group_read_only[OF assms]
  by (simp add: get_or_create_read_only[OF assms])

lemma get_values_group_read_only:
  assumes "\<not> is_writable h5"
  shows "get_values_group h5 =
     (h5, if get_node h5 [''usgs''] = None \<or> get_node h5 [''usgs'', ''values''] = None then None
          else Some [''usgs'', ''values''])"
  unfolding get_values_group_def get_usgs_group_read_only[OF assms]
  by (simp add: get_or_create_read_only[OF assms])

lemma get_agency_group_read_only:
  assumes "\<not> is_writable h5"
  shows "get_agency_group h5 a =
     (h5, if get_node h5 [''usgs''] = None \<or> get_node h5 [''usgs'', ''values''] = None \<or>
             get_node h5 [''usgs'', ''values'', a] = None then None
          else Some [''usgs'', ''values'', a])"
  unfolding get_agency_group_def get_values_group_read_only[OF assms]
  by (simp add: get_or_create_read_only[OF assms])

lemma get_site_group_read_only:
  assumes "\<not> is_writable h5"
  shows "get_site_group h5 site =
     (h5, if get_node h5 [''usgs''] = None \<or> get_node h5 [''usgs'', ''values''] = None \<or>
             get_node h5 [''usgs'', ''values'', agency site] = None \<or>
             get_node h5 [''usgs'', ''values'', agency site, code site] = None then None
          else Some [''usgs'', ''values'', agency site, code site])"
  unfolding get_site_group_def get_agency_group_read_only[OF assms]
  by (simp add: get_or_create_read_only[OF assms])

lemma get_value_table_read_only:
  assumes "\<not> is_writable h5"
  shows "get_value_table h5 site v =
     (h5, Inr (if get_node h5 [''usgs''] = None \<or> get_node h5 [''usgs'', ''values''] = None \<or>
             get_node h5 [''usgs'', ''values'', agency site] = None \<or>
             get_node h5 [''usgs'', ''values'', agency site, code site] = None \<or>
             get_node h5 [''usgs'', ''values'', agency site, code site, value_table_name v] = None
          then None
          else Some [''usgs'', ''values'', agency site, code site, value_table_name v]))"
  unfolding get_value_table_def get_site_group_read_only[OF assms]
  using assms by (simp split: option.splits)

lemma get_sites_read_only:
  assumes "\<not> is_writable h5"
  shows "fst (get_sites h5) = h5"
    and "get_node h5 [''usgs''] = None \<or> get_node h5 [''usgs'', ''sites''] = None \<Longrightarrow>
         snd (get_sites h5) = Inr Map.empty"
  unfolding get_sites_def get_sites_table_read_only[OF assms]
  by (simp_all split: option.splits node.splits)

lemma get_sites_table_found:
  assumes "get_node h5 [''usgs''] \<noteq> None" and "get_node h5 [''usgs'', ''sites''] \<noteq> None"
  shows "get_sites_table h5 = (h5, Some [''usgs'', ''sites''])"
  unfolding get_sites_table_def get_usgs_group_def
  using assms by (simp add: get_or_create_found)

lemma get_site_data_fst:
  assumes "\<not> is_writable h5"
  shows "fst (get_site_data h5 c ac) = h5"
  unfolding get_site_data_def get_sites_table_read_only[OF assms]
  by (simp split: option.splits node.splits list.splits)

lemma get_site_data_no_table:
  assumes "\<not> is_writable h5"
    and "get_node h5 [''usgs''] = None \<or> get_node h5 [''usgs'', ''sites''] = None"
  shows "snd (get_site_data h5 c ac) = Inr Map.empty"
  unfolding get_site_data_def get_sites_table_read_only[OF assms(1)]
  using assms(2) by simp

lemma get_site_data_found:
  assumes "get_node h5 [''usgs''] \<noteq> None"
    and "get_node h5 [''usgs'', ''sites''] = Some (SitesTable site_rows)"
  shows "get_site_data h5 c ac =
     (case filter (where_clause c ac) site_rows of
        [] \<Rightarrow> (h5, Inr Map.empty)
      | row # others \<Rightarrow>
          if agency (last (row # others)) = [] then (h5, Inr Map.empty)
          else if 1 \<le> length others \<and> \<not> agency_given ac then (h5, Inl TypeError)
          else
            (case get_node h5 [''usgs'', ''values'', agency (last (row # others)), c] of
               None \<Rightarrow> (h5, Inl (NoSiteFound c))
             | Some site_group \<Rightarrow>
                 (h5, site_values h5 [''usgs'', ''values'', agency (last (row # others)), c])))"
proof -
  have "get_sites_table h5 = (h5, Some [''usgs'', ''sites''])"
    using get_sites_table_found[OF assms(1)] assms(2) by simp
  then show ?thesis unfolding get_site_data_def using assms(2) by simp
qed

lemma collect_all_Inr:
  assumes "\<forall>x \<in> set xs. \<exists>y. x = Inr y"
  shows "\<exists>ys. collect xs = Inr ys"
  using assms
proof (induction xs)
  case Nil
  then show ?case by simp
next
  case (Cons x xs)
  then obtain y ys where "x = Inr y" "collect xs = Inr ys" by auto
  then show ?case by simp
qed

lemma site_values_ok:
  assumes "\<forall>nd \<in> set (walk_tables h5 g).
             \<exists>table v st. nd = ValueTable table \<and> attr_variable table = Some v \<and>
                           var_statistic v = Some st"
  shows "\<exists>vals. site_values h5 g = Inr vals"
proof -
  have "\<forall>x \<in> set (map values_table_as_dict (walk_tables h5 g)). \<exists>y. x = Inr y"
  proof
    fix x assume "x \<in> set (map values_table_as_dict (walk_tables h5 g))"
    then obtain nd where nd: "nd \<in> set (walk_tables h5 g)" "x = values_table_as_dict nd" by auto
    then obtain table v st where "nd = ValueTable table" "attr_variable table = Some v"
        "var_statistic v = Some st"
      using assms by blast
    then show "\<exists>y. x = Inr y" using nd(2) by (simp add: values_table_as_dict_def)
  qed
  then obtain ys where "collect (map values_table_as_dict (walk_tables h5 g)) = Inr ys"
    using collect_all_Inr by blast
  then show ?thesis by (simp add: site_values_def)
qed

lemma iter_nodes_create_node:
  assumes "length p \<le> length g"
  shows "iter_nodes (create_node h5 p nd) g = iter_nodes h5 g"
  using assms by (auto simp: iter_nodes_def create_node_def)

lemma is_writable_create_node: "is_writable (create_node h5 p nd) = is_writable h5"
  by (simp add: is_writable_def create_node_def)

lemma get_or_create_writable:
  assumes "is_writable h5"
  shows "\<exists>h5'. get_or_create h5 p nd = (h5', Some p) \<and> is_writable h5' \<and>
           (\<forall>g. length p \<le> length g \<longrightarrow> iter_nodes h5' g = iter_nodes h5 g)"
proof (cases "get_node h5 p")
  case None
  then have "get_or_create h5 p nd = (create_node h5 p nd, Some p)"
    using assms by (simp add: get_or_create_def)
  then show ?thesis using assms by (simp add: is_writable_create_node iter_nodes_create_node)
next
  case (Some a)
  then have "get_or_create h5 p nd = (h5, Some p)" by (simp add: get_or_create_def)
  then show ?thesis using assms by simp
qed

lemma get_site_group_writable:
  assumes "is_writable h5"
  shows "\<exists>h5'. get_site_group h5 site = (h5', Some [''usgs'', ''values'', agency site, code site]) \<and>
           iter_nodes h5' [''usgs'', ''values'', agency site, code site] =
           iter_nodes h5 [''usgs'', ''values'', agency site, code site]"
proof -
  let ?g = "[''usgs'', ''values'', agency site, code site]"
  obtain h1 where h1: "get_or_create h5 [''usgs''] Group = (h1, Some [''usgs''])" "is_writable h1"
      "iter_nodes h1 ?g = iter_nodes h5 ?g"
    using get_or_create_writable[OF assms, of "[''usgs'']" Group] by auto
  obtain h2 where h2: "get_or_create h1 [''usgs'', ''values''] Group = (h2, Some [''usgs'', ''values''])"
      "is_writable h2" "iter_nodes h2 ?g = iter_nodes h1 ?g"
    using get_or_create_writable[OF h1(2), of "[''usgs'', ''values'']" Group] by auto
  obtain h3 where h3: "get_or_create h2 [''usgs'', ''values'', agency site] Group =
        (h3, Some [''usgs'', ''values'', agency site])"
      "is_writable h3" "iter_nodes h3 ?g = iter_nodes h2 ?g"
    using get_or_create_writable[OF h2(2), of "[''usgs'', ''values'', agency site]" Group] by auto
  obtain h4 where h4: "get_or_create h3 ?g Group = (h4, Some ?g)"
      "is_writable h4" "iter_nodes h4 ?g = iter_nodes h3 ?g"
    using get_or_create_writable[OF h3(2), of ?g Group] by auto
  have "get_site_group h5 site = (h4, Some ?g)"
    unfolding get_site_group_def get_agency_group_def get_values_group_def get_usgs_group_def
    using h1(1) h2(1) h3(1) h4(1) by simp
  then show ?thesis using h1(3) h2(3) h3(3) h4(3) by simp
qed

lemma min_list_None:
  fixes xs :: "'a::linorder option list"
  assumes "None \<in> set xs"
  shows "min_list xs = None"
  using assms
proof (induction xs)
  case Nil
  then show ?case by simp
next
  case (Cons x xs)
  show ?case
  proof (cases xs)
    case Nil
    then show ?thesis using Cons.prems by simp
  next
    case (Cons y ys)
    show ?thesis
    proof (cases "x = None")
      case True
      then show ?thesis using \<open>xs = y # ys\<close> by (simp add: min_def)
    next
      case False
      then have "None \<in> set xs" using Cons.prems by auto
      then have n: "min_list xs = None" by (rule Cons.IH)
      have e: "min_list (x # xs) = min x (min_list xs)" using \<open>xs = y # ys\<close> by simp
      show ?thesis unfolding e n by (cases x) (simp_all add: min_def)
    qed
  qed
qed

lemma min_list_Some:
  fixes ts :: "'a::linorder list"
  assumes "ts \<noteq> []"
  shows "min_list (map Some ts) = Some (Min (set ts))"
  using assms
proof (induction ts)
  case Nil
  then show ?case by simp
next
  case (Cons t ts)
  show ?case
  proof (cases ts)
    case Nil
    then show ?thesis by simp
  next
    case (Cons u us)
    then have "min_list (map Some ts) = Some (Min (set ts))" using Cons.IH by simp
    then have "min_list (map Some (t # ts)) = min (Some t) (Some (Min (set ts)))"
      using \<open>ts = u # us\<close> by simp
    also have "\<dots> = Some (min t (Min (set ts)))" by (simp add: min_def)
    also have "min t (Min (set ts)) = Min (set (t # ts))" using \<open>ts = u # us\<close> by simp
    finally show ?thesis .
  qed
qed

lemma all_Some_map:
  assumes "None \<notin> set xs"
  shows "xs = map Some (map the xs)"
  using assms by (induction xs) auto

lemma last_refresh_writable:
  assumes "is_writable h5"
  shows "snd (last_refresh site h5) =
     Inr (let stamps = map node_last_refresh (iter_nodes h5 [''usgs'', ''values'', agency site, code site])
          in if stamps = [] then None else min_list stamps)"
proof -
  obtain h5' where "get_site_group h5 site = (h5', Some [''usgs'', ''values'', agency site, code site])"
      "iter_nodes h5' [''usgs'', ''values'', agency site, code site] =
       iter_nodes h5 [''usgs'', ''values'', agency site, code site]"
    using get_site_group_writable[OF assms, of site] by blast
  then show ?thesis by (simp add: last_refresh_def Let_def)
qed





lemmas store_eval_defs =
  get_site_data_def get_sites_def get_sites_table_def get_values_group_def get_agency_group_def
  get_site_group_def get_value_table_def get_usgs_group_def get_or_create_def get_node_def
  is_writable_def create_node_def where_clause_def agency_given_def site_values_def
  walk_tables_def iter_nodes_def values_table_as_dict_def value_table_name_def
  last_refresh_def date_range_params_def

section \<open>The claims about the merge\<close>

text \<open>
  C4. The merge loses no data. The incoming records are records of the fetch client whose
  strings fit the columns they go to. The call returns without an exception; the
  timestamps of the rows that were in the table are still there, row by row, whatever else
  of these rows was overwritten; and every timestamp of the batch is the timestamp of a row
  of the table after the call.
\<close>

theorem merge_loses_no_data:
  assumes "\<forall>d \<in> set update_values. fetched d"
  shows "(\<exists>ds. snd (update_or_append_sortable table update_values query_isodate) = Inr ds) \<and>
         take (length (rows table))
           (map datetime (rows (fst (update_or_append_sortable table update_values query_isodate)))) =
           map datetime (rows table) \<and>
         (\<forall>d \<in> set update_values.
            \<exists>r \<in> set (rows (fst (update_or_append_sortable table update_values query_isodate))).
              d ''datetime'' = Some (datetime r))"
proof -
  let ?T' = "fst (update_or_append_sortable table update_values query_isodate)"
  have a: "\<exists>ds. snd (update_or_append_sortable table update_values query_isodate) = Inr ds"
    by (simp add: merge_closed_form[OF fetched_all_incoming[OF assms]])
  have b: "take (length (rows table)) (map datetime (rows ?T')) = map datetime (rows table)"
    unfolding merged_datetimes[OF assms] by simp
  have c: "\<forall>d \<in> set update_values. \<exists>r \<in> set (rows ?T'). d ''datetime'' = Some (datetime r)"
  proof
    fix d assume d: "d \<in> set update_values"
    then have "incoming d" using assms by (simp add: fetched_def)
    then obtain t where t: "d ''datetime'' = Some t" using incoming_keys[of d] by auto
    have "t \<in> datetime ` set (rows ?T')"
      using merged_has_all[OF assms d, of table query_isodate] t by simp
    then show "\<exists>r \<in> set (rows ?T'). d ''datetime'' = Some (datetime r)" using t by auto
  qed
  show ?thesis using a b c by (intro conjI)
qed

theorem merge_loses_no_data_witness:
  "fetched (fetched_value ''2012-01-02'' ''2.5'' ''P'' ''2012-03-01'') \<and>
   fetched (fetched_value ''2012-01-01'' ''1.7'' ''P'' ''2012-03-01'') \<and>
   (\<exists>ds. snd (update_or_append_sortable example_table
              [fetched_value ''2012-01-02'' ''2.5'' ''P'' ''2012-03-01'',
               fetched_value ''2012-01-01'' ''1.7'' ''P'' ''2012-03-01''] ''2012-03-01'') = Inr ds) \<and>
   take (length (rows example_table))
      (map datetime (rows (fst (update_or_append_sortable example_table
              [fetched_value ''2012-01-02'' ''2.5'' ''P'' ''2012-03-01'',
               fetched_value ''2012-01-01'' ''1.7'' ''P'' ''2012-03-01''] ''2012-03-01'')))) =
      map datetime (rows example_table) \<and>
   (\<exists>r \<in> set (rows (fst (update_or_append_sortable example_table
              [fetched_value ''2012-01-02'' ''2.5'' ''P'' ''2012-03-01'',
               fetched_value ''2012-01-01'' ''1.7'' ''P'' ''2012-03-01''] ''2012-03-01''))).
         fetched_value ''2012-01-02'' ''2.5'' ''P'' ''2012-03-01'' ''datetime'' = Some (datetime r)) \<and>
   (\<exists>r \<in> set (rows (fst (update_or_append_sortable example_table
              [fetched_value ''2012-01-02'' ''2.5'' ''P'' ''2012-03-01'',
               fetched_value ''2012-01-01'' ''1.7'' ''P'' ''2012-03-01''] ''2012-03-01''))).
         fetched_value ''2012-01-01'' ''1.7'' ''P'' ''2012-03-01'' ''datetime'' = Some (datetime r))"
proof -
  have a: "fetched (fetched_value ''2012-01-02'' ''2.5'' ''P'' ''2012-03-01'')"
    and b: "fetched (fetched_value ''2012-01-01'' ''1.7'' ''P'' ''2012-03-01'')"
    by (simp_all add: fetched_def incoming_def fits_columns_def fits_key_def fetched_value_def)
  have h: "\<forall>d \<in> set [fetched_value ''2012-01-02'' ''2.5'' ''P'' ''2012-03-01'',
                  fetched_value ''2012-01-01'' ''1.7'' ''P'' ''2012-03-01'']. fetched d"
    using a b by simp
  show ?thesis
    using a b merge_loses_no_data[OF h, of example_table "''2012-03-01''"] by simp
qed

text \<open>
  C10. Every incoming record that is appended is stamped with the query time. The incoming
  records are records of the fetch client whose strings fit the columns they go to, and
  the query time fits its column. The rows behind the old end of the table, which are the
  appended ones, all have \<^verbatim>\<open>last_modified = query_isodate\<close>; and every incoming record whose
  timestamp is the timestamp of no row of the table is among them, with its own timestamp,
  value and qualifiers.
\<close>

theorem appended_rows_stamped:
  assumes "\<forall>d \<in> set update_values. fetched d"
    and "length query_isodate \<le> 26"
  shows "(\<forall>r \<in> set (drop (length (rows table))
                    (rows (fst (update_or_append_sortable table update_values query_isodate)))).
            last_modified r = query_isodate) \<and>
         (\<forall>d \<in> set update_values.
            (\<forall>r \<in> set (rows table). d ''datetime'' \<noteq> Some (datetime r)) \<longrightarrow>
            (\<exists>r \<in> set (drop (length (rows table))
                     (rows (fst (update_or_append_sortable table update_values query_isodate)))).
               d ''datetime'' = Some (datetime r) \<and> d ''value'' = Some (value_col r) \<and>
               d ''qualifiers'' = Some (qualifiers r) \<and> last_modified r = query_isodate))"
proof -
  let ?T' = "fst (update_or_append_sortable table update_values query_isodate)"
  let ?cur = "itersorted (rows table)"
  have inc: "\<forall>d \<in> set update_values. incoming d" by (rule fetched_all_incoming[OF assms(1)])
  have dr: "drop (length (rows table)) (rows ?T') = appends query_isodate (rows table) update_values"
    using merge_rows[OF inc] by (simp add: length_set_rows)
  have a: "\<forall>r \<in> set (appends query_isodate (rows table) update_values). last_modified r = query_isodate"
  proof
    fix r assume "r \<in> set (appends query_isodate (rows table) update_values)"
    then obtain d where "d \<in> set (sorted_batch update_values)" "r = appended_row query_isodate d"
      unfolding appends_def by auto
    then show "last_modified r = query_isodate"
      using appended_row_fields(4)[of d query_isodate] assms by (simp add: sorted_batch_def)
  qed
  have b: "\<forall>d \<in> set update_values.
            (\<forall>r \<in> set (rows table). d ''datetime'' \<noteq> Some (datetime r)) \<longrightarrow>
            (\<exists>r \<in> set (appends query_isodate (rows table) update_values).
               d ''datetime'' = Some (datetime r) \<and> d ''value'' = Some (value_col r) \<and>
               d ''qualifiers'' = Some (qualifiers r) \<and> last_modified r = query_isodate)"
  proof (intro ballI impI)
    fix d assume d: "d \<in> set update_values"
      and nm: "\<forall>r \<in> set (rows table). d ''datetime'' \<noteq> Some (datetime r)"
    have fd: "fetched d" using d assms(1) by simp
    then obtain t where t: "d ''datetime'' = Some t"
      using incoming_keys[OF fetched_incoming[OF fd]] by auto
    have "t \<notin> datetime ` set (rows table)" using nm t by auto
    then have "unmatched ?cur d" using t by (simp add: unmatched_iff)
    then have "appended_row query_isodate d \<in> set (appends query_isodate (rows table) update_values)"
      using d unfolding appends_def by (simp add: sorted_batch_def)
    then show "\<exists>r \<in> set (appends query_isodate (rows table) update_values).
               d ''datetime'' = Some (datetime r) \<and> d ''value'' = Some (value_col r) \<and>
               d ''qualifiers'' = Some (qualifiers r) \<and> last_modified r = query_isodate"
      using appended_row_fields[OF fd, of query_isodate] assms(2)
      by (intro bexI[of _ "appended_row query_isodate d"]) simp_all
  qed
  show ?thesis unfolding dr using a b by (intro conjI)
qed

theorem appended_rows_stamped_witness:
  "fetched (fetched_value ''2012-01-03'' ''3.5'' ''A'' ''2012-03-02'') \<and>
   length ''2012-03-02'' \<le> 26 \<and>
   (\<exists>r \<in> set (drop (length (rows example_table))
             (rows (fst (update_or_append_sortable example_table
                [fetched_value ''2012-01-03'' ''3.5'' ''A'' ''2012-03-02''] ''2012-03-02'')))).
      datetime r = ''2012-01-03'' \<and> value_col r = ''3.5'' \<and> qualifiers r = ''A'' \<and>
      last_modified r = ''2012-03-02'')"
proof -
  have a: "fetched (fetched_value ''2012-01-03'' ''3.5'' ''A'' ''2012-03-02'')"
    by (simp add: fetched_def incoming_def fits_columns_def fits_key_def fetched_value_def)
  have h: "\<forall>d \<in> set [fetched_value ''2012-01-03'' ''3.5'' ''A'' ''2012-03-02'']. fetched d"
    using a by simp
  have l: "length ''2012-03-02'' \<le> 26" by simp
  have n: "\<forall>r \<in> set (rows example_table).
             fetched_value ''2012-01-03'' ''3.5'' ''A'' ''2012-03-02'' ''datetime'' \<noteq> Some (datetime r)"
    by (simp add: example_table_def example_row_def fetched_value_def)
  have "\<exists>r \<in> set (drop (length (rows example_table))
             (rows (fst (update_or_append_sortable example_table
                [fetched_value ''2012-01-03'' ''3.5'' ''A'' ''2012-03-02''] ''2012-03-02'')))).
      fetched_value ''2012-01-03'' ''3.5'' ''A'' ''2012-03-02'' ''datetime'' = Some (datetime r) \<and>
      fetched_value ''2012-01-03'' ''3.5'' ''A'' ''2012-03-02'' ''value'' = Some (value_col r) \<and>
      fetched_value ''2012-01-03'' ''3.5'' ''A'' ''2012-03-02'' ''qualifiers'' = Some (qualifiers r) \<and>
      last_modified r = ''2012-03-02''"
    using bspec[OF conjunct2[OF appended_rows_stamped[OF h l, of example_table]],
        of "fetched_value ''2012-01-03'' ''3.5'' ''A'' ''2012-03-02''"] n
    by (simp only: list.set insertI1 simp_thms)
  then have "\<exists>r \<in> set (drop (length (rows example_table))
             (rows (fst (update_or_append_sortable example_table
                [fetched_value ''2012-01-03'' ''3.5'' ''A'' ''2012-03-02''] ''2012-03-02'')))).
      datetime r = ''2012-01-03'' \<and> value_col r = ''3.5'' \<and> qualifiers r = ''A'' \<and>
      last_modified r = ''2012-03-02''"
    by (simp add: fetched_value_def eq_commute)
  then show ?thesis using a l by simp
qed

text \<open>
  C6, as the code has it. The writes in place come first, each followed by a flush of its
  own; the appended rows come after all of them; one more flush ends the call. So the call
  flushes once for every incoming record whose timestamp is in the table, and once more.
\<close>

theorem updates_then_appends_flush_each:
  assumes "\<forall>d \<in> set update_values. incoming d"
  shows "\<exists>update_rows appended.
           oplog (fst (update_or_append_sortable table update_values query_isodate)) =
             oplog table @ concat (map (\<lambda>p. [SetRow (fst p) (snd p), Flush]) update_rows) @
             map AppendRow appended @ [Flush] \<and>
           length update_rows =
             length (filter (\<lambda>d. the (d ''datetime'') \<in> datetime ` set (rows table)) update_values) \<and>
           flushes (oplog (fst (update_or_append_sortable table update_values query_isodate))) =
             flushes (oplog table) + length update_rows + 1"
proof -
  let ?us = "matches query_isodate (rows table) update_values"
  let ?aps = "appends query_isodate (rows table) update_values"
  have o: "oplog (fst (update_or_append_sortable table update_values query_isodate)) =
             oplog table @ concat (map (\<lambda>p. [SetRow (fst p) (snd p), Flush]) ?us) @
             map AppendRow ?aps @ [Flush]"
    by (simp add: merge_closed_form[OF assms])
  have f: "flushes (oplog (fst (update_or_append_sortable table update_values query_isodate))) =
             flushes (oplog table) + length ?us + 1"
    unfolding o by (simp add: flushes_append flushes_updates flushes_appends) (simp add: flushes_def)
  show ?thesis
    by (intro exI[of _ ?us] exI[of _ ?aps] conjI o f length_matches[OF assms])
qed

theorem updates_then_appends_flush_each_witness:
  "incoming (fetched_value ''2012-01-01'' ''1.9'' ''P'' ''2012-03-03'') \<and>
   (\<exists>update_rows appended.
           oplog (fst (update_or_append_sortable example_table
              [fetched_value ''2012-01-01'' ''1.9'' ''P'' ''2012-03-03''] ''2012-03-03'')) =
             oplog example_table @ concat (map (\<lambda>p. [SetRow (fst p) (snd p), Flush]) update_rows) @
             map AppendRow appended @ [Flush] \<and>
           length update_rows =
             length (filter (\<lambda>d. the (d ''datetime'') \<in> datetime ` set (rows example_table))
               [fetched_value ''2012-01-01'' ''1.9'' ''P'' ''2012-03-03'']) \<and>
           flushes (oplog (fst (update_or_append_sortable example_table
              [fetched_value ''2012-01-01'' ''1.9'' ''P'' ''2012-03-03''] ''2012-03-03''))) =
             flushes (oplog example_table) + length update_rows + 1)"
proof -
  have a: "incoming (fetched_value ''2012-01-01'' ''1.9'' ''P'' ''2012-03-03'')"
    by (simp add: incoming_def fetched_value_def)
  have h: "\<forall>d \<in> set [fetched_value ''2012-01-01'' ''1.9'' ''P'' ''2012-03-03'']. incoming d"
    using a by simp
  from a updates_then_appends_flush_each[OF h, of example_table "''2012-03-03''"]
  show ?thesis by (rule conjI)
qed

text \<open>
  C6, as it is stated, fails: one incoming record that matches the one row of the table
  makes the call flush twice, once after the write in place and once at the end.
\<close>

theorem flushed_once_counterexample:
  "flushes (oplog (fst (update_or_append_sortable example_table
      [fetched_value ''2012-01-01'' ''1.9'' ''P'' ''2012-03-03''] ''2012-03-03''))) = 2"
  by (simp add: merge_eval_defs)

text \<open>
  C1, as the code has it. Change detection, in a series with one row per timestamp whose
  rows are rows as the table stores them, for incoming records of the fetch client whose
  strings fit the columns they go to and a query time that fits its column. Take the last
  record of the batch among those with its timestamp, that timestamp being the one of row
  \<open>n\<close>. After the merge row \<open>n\<close> has \<^verbatim>\<open>last_modified = query_isodate\<close> if the value or the
  qualifiers of the record differ from those the row had, and the \<^verbatim>\<open>last_modified\<close> it had
  before the merge if both are the same.
\<close>

theorem change_detection:
  assumes "\<forall>d \<in> set update_values. fetched d"
    and "length query_isodate \<le> 26"
    and "distinct (map datetime (rows table))"
    and "\<forall>r \<in> set (rows table). cut_row r = r"
    and "d \<in> set update_values"
    and "last (filter (\<lambda>x. x ''datetime'' = d ''datetime'') update_values) = d"
    and "n < length (rows table)"
    and "d ''datetime'' = Some (datetime (rows table ! n))"
  shows "last_modified (rows (fst (update_or_append_sortable table update_values query_isodate)) ! n) =
           (if d ''value'' \<noteq> Some (value_col (rows table ! n)) \<or>
               d ''qualifiers'' \<noteq> Some (qualifiers (rows table ! n))
            then query_isodate else last_modified (rows table ! n))"
proof -
  let ?r = "rows table ! n"
  let ?fs = "filter (\<lambda>x. x ''datetime'' = Some (datetime ?r)) update_values"
  have ne: "?fs \<noteq> []" using assms(5,8) by (auto simp: filter_empty_conv)
  have l: "last ?fs = d" using assms(6,8) by simp
  have row: "rows (fst (update_or_append_sortable table update_values query_isodate)) ! n =
      cut_row (updated_row_tuple ?r (stamped query_isodate ?r d))"
    using final_row[OF fetched_all_incoming[OF assms(1)] assms(3,7), of query_isodate] ne l
    by simp
  have "d ''last_modified'' = None"
    using incoming_keys[of d] assms(1,5) by (simp add: fetched_def)
  moreover have "cut_row ?r = ?r" using assms(4,7) by simp
  then have "take 26 (last_modified ?r) = last_modified ?r" by (rule stored_last_modified)
  ultimately show ?thesis
    unfolding row using assms(2)
    by (simp add: updated_row_tuple_def stamped_def changed_def dict_get_def cut_row_def)
qed

theorem change_detection_witness:
  "fetched (fetched_value ''2012-01-01'' ''1.9'' ''P'' ''2012-03-05'') \<and>
   fetched (fetched_value ''2012-01-01'' ''1.5'' ''P'' ''2012-03-05'') \<and>
   last_modified (rows (fst (update_or_append_sortable example_table
       [fetched_value ''2012-01-01'' ''1.5'' ''P'' ''2012-03-05'',
        fetched_value ''2012-01-01'' ''1.9'' ''P'' ''2012-03-05''] ''2012-03-05'')) ! 0) =
     ''2012-03-05'' \<and>
   last_modified (rows (fst (update_or_append_sortable example_table
       [fetched_value ''2012-01-01'' ''1.9'' ''P'' ''2012-03-05'',
        fetched_value ''2012-01-01'' ''1.5'' ''P'' ''2012-03-05''] ''2012-03-05'')) ! 0) =
     ''2012-02-01''"
proof -
  have a: "fetched (fetched_value ''2012-01-01'' ''1.9'' ''P'' ''2012-03-05'')"
    and b: "fetched (fetched_value ''2012-01-01'' ''1.5'' ''P'' ''2012-03-05'')"
    by (simp_all add: fetched_def incoming_def fits_columns_def fits_key_def fetched_value_def)
  have q: "length ''2012-03-05'' \<le> 26" by simp
  have dt: "distinct (map datetime (rows example_table))"
    and ft: "\<forall>r \<in> set (rows example_table). cut_row r = r"
    and n: "0 < length (rows example_table)"
    by (simp_all add: example_table_def example_row_def cut_row_def)
  have "last_modified (rows (fst (update_or_append_sortable example_table
       [fetched_value ''2012-01-01'' ''1.5'' ''P'' ''2012-03-05'',
        fetched_value ''2012-01-01'' ''1.9'' ''P'' ''2012-03-05''] ''2012-03-05'')) ! 0) =
     ''2012-03-05''"
    using change_detection[of "[fetched_value ''2012-01-01'' ''1.5'' ''P'' ''2012-03-05'',
          fetched_value ''2012-01-01'' ''1.9'' ''P'' ''2012-03-05'']" "''2012-03-05''"
        example_table "fetched_value ''2012-01-01'' ''1.9'' ''P'' ''2012-03-05''" 0]
      a b q dt ft n
    by (simp add: fetched_value_def example_table_def example_row_def)
  moreover have "last_modified (rows (fst (update_or_append_sortable example_table
       [fetched_value ''2012-01-01'' ''1.9'' ''P'' ''2012-03-05'',
        fetched_value ''2012-01-01'' ''1.5'' ''P'' ''2012-03-05''] ''2012-03-05'')) ! 0) =
     ''2012-02-01''"
    using change_detection[of "[fetched_value ''2012-01-01'' ''1.9'' ''P'' ''2012-03-05'',
          fetched_value ''2012-01-01'' ''1.5'' ''P'' ''2012-03-05'']" "''2012-03-05''"
        example_table "fetched_value ''2012-01-01'' ''1.5'' ''P'' ''2012-03-05''" 0]
      a b q dt ft n
    by (simp add: fetched_value_def example_table_def example_row_def)
  ultimately show ?thesis using a b by simp
qed

text \<open>
  C1, as it is stated, fails: the batch has two records with the timestamp of the one row of
  the table, the first with the value and the qualifiers of that row and the second with
  another value. Both are written to the row, the second last, and the row ends with
  \<^verbatim>\<open>last_modified = query_isodate\<close>, though the first record changes nothing.
\<close>

theorem change_detection_counterexample:
  "fetched_value ''2012-01-01'' ''1.5'' ''P'' ''2012-03-05'' ''datetime'' =
     Some (datetime (rows example_table ! 0)) \<and>
   fetched_value ''2012-01-01'' ''1.5'' ''P'' ''2012-03-05'' ''value'' =
     Some (value_col (rows example_table ! 0)) \<and>
   fetched_value ''2012-01-01'' ''1.5'' ''P'' ''2012-03-05'' ''qualifiers'' =
     Some (qualifiers (rows example_table ! 0)) \<and>
   last_modified (rows (fst (update_or_append_sortable example_table
       [fetched_value ''2012-01-01'' ''1.5'' ''P'' ''2012-03-05'',
        fetched_value ''2012-01-01'' ''1.9'' ''P'' ''2012-03-05''] ''2012-03-05'')) ! 0) \<noteq>
     last_modified (rows example_table ! 0)"
  by (simp add: merge_eval_defs)

text \<open>
  C5, as the code has it. \<^verbatim>\<open>update_site_data\<close> puts \<^verbatim>\<open>last_checked = query_isodate\<close> into
  every incoming record before the merge, and the merge takes from the record every column
  the record has. So in a series with one row per timestamp whose rows are rows as the
  table stores them, for incoming records of the fetch client whose strings fit the columns
  and a query time that fits its column: when the last record of the batch among those with
  its timestamp has the timestamp of row \<open>n\<close>, then after the update row \<open>n\<close> has
  \<^verbatim>\<open>last_checked = query_isodate\<close>, the timestamp it had, the value and the qualifiers of the
  record, and \<^verbatim>\<open>last_modified = query_isodate\<close> if value or qualifiers differ from those the
  row had and the \<^verbatim>\<open>last_modified\<close> it had otherwise.
\<close>

theorem merged_row_takes_last_checked:
  assumes "\<forall>d \<in> set update_values. fetched d"
    and "length query_isodate \<le> 26"
    and "distinct (map datetime (rows table))"
    and "\<forall>r \<in> set (rows table). cut_row r = r"
    and "d \<in> set update_values"
    and "last (filter (\<lambda>x. x ''datetime'' = d ''datetime'') update_values) = d"
    and "n < length (rows table)"
    and "d ''datetime'' = Some (datetime (rows table ! n))"
  shows "last_checked (rows (fst (refresh_table table v update_values query_isodate)) ! n) =
           query_isodate \<and>
         datetime (rows (fst (refresh_table table v update_values query_isodate)) ! n) =
           datetime (rows table ! n) \<and>
         d ''value'' =
           Some (value_col (rows (fst (refresh_table table v update_values query_isodate)) ! n)) \<and>
         d ''qualifiers'' =
           Some (qualifiers (rows (fst (refresh_table table v update_values query_isodate)) ! n)) \<and>
         last_modified (rows (fst (refresh_table table v update_values query_isodate)) ! n) =
           (if d ''value'' \<noteq> Some (value_col (rows table ! n)) \<or>
               d ''qualifiers'' \<noteq> Some (qualifiers (rows table ! n))
            then query_isodate else last_modified (rows table ! n))"
proof -
  let ?r = "rows table ! n"
  let ?T = "table\<lparr>attr_variable := Some v\<rparr>"
  let ?ds = "stamp_last_checked query_isodate update_values"
  let ?d = "d(''last_checked'' \<mapsto> query_isodate)"
  have rT: "rows ?T = rows table" by simp
  have inc: "\<forall>x \<in> set ?ds. incoming x"
    by (rule fetched_all_incoming[OF stamp_all_fetched[OF assms(1,2)]])
  have dt: "distinct (map datetime (rows ?T))" using assms(3) by simp
  have n: "n < length (rows ?T)" using assms(7) by simp
  note sl = stamp_filter_last[OF assms(5,6,8), of query_isodate]
  have row: "rows (fst (refresh_table table v update_values query_isodate)) ! n =
      cut_row (updated_row_tuple ?r (stamped query_isodate ?r ?d))"
    unfolding refresh_table_rows
    using final_row[OF inc dt n, of query_isodate] sl by (simp only: rT if_False)
  obtain val qs where k: "d ''value'' = Some val" "d ''qualifiers'' = Some qs"
      "d ''last_modified'' = None"
    using incoming_keys[of d] assms(1,5) by (auto simp: fetched_def)
  have fd: "fetched d" using assms(1,5) by simp
  have c: "take 26 (datetime ?r) = datetime ?r" "take 20 val = val" "take 20 qs = qs"
    using fetched_take[OF fd] assms(8) k by simp_all
  have "cut_row ?r = ?r" using assms(4,7) by simp
  then have lm: "take 26 (last_modified ?r) = last_modified ?r" by (rule stored_last_modified)
  let ?x = "cut_row (updated_row_tuple ?r (stamped query_isodate ?r ?d))"
  have f1: "last_checked ?x = query_isodate"
    using assms(2) by (simp add: updated_row_tuple_def stamped_def dict_get_def cut_row_def)
  have f2: "datetime ?x = datetime ?r"
    using assms(8) c(1) by (simp add: updated_row_tuple_def stamped_def dict_get_def cut_row_def)
  have f3: "value_col ?x = val"
    using k(1) c(2) by (simp add: updated_row_tuple_def stamped_def dict_get_def cut_row_def)
  have f4: "qualifiers ?x = qs"
    using k(2) c(3) by (simp add: updated_row_tuple_def stamped_def dict_get_def cut_row_def)
  have ch: "changed ?r ?d = (d ''value'' \<noteq> Some (value_col ?r) \<or>
                             d ''qualifiers'' \<noteq> Some (qualifiers ?r))"
    by (simp add: changed_def)
  have f5: "last_modified ?x = (if changed ?r ?d then query_isodate else last_modified ?r)"
    using k(3) lm assms(2)
    by (simp add: updated_row_tuple_def stamped_def dict_get_def cut_row_def)
  show ?thesis
    unfolding row f1 f2 f3 f4 f5 ch using k(1,2) by simp
qed

theorem merged_row_takes_last_checked_witness:
  "fetched (raw_value ''2012-01-01'' ''1.5'' ''P'') \<and>
   last_checked (rows (fst (refresh_table example_table example_variable
       [raw_value ''2012-01-01'' ''1.5'' ''P''] ''2012-03-04'')) ! 0) = ''2012-03-04'' \<and>
   datetime (rows (fst (refresh_table example_table example_variable
       [raw_value ''2012-01-01'' ''1.5'' ''P''] ''2012-03-04'')) ! 0) = ''2012-01-01'' \<and>
   last_modified (rows (fst (refresh_table example_table example_variable
       [raw_value ''2012-01-01'' ''1.5'' ''P''] ''2012-03-04'')) ! 0) = ''2012-02-01''"
proof -
  have a: "fetched (raw_value ''2012-01-01'' ''1.5'' ''P'')"
    by (simp add: fetched_def incoming_def fits_columns_def fits_key_def raw_value_def)
  have q: "length ''2012-03-04'' \<le> 26" by simp
  have dt: "distinct (map datetime (rows example_table))"
    and ft: "\<forall>r \<in> set (rows example_table). cut_row r = r"
    and n: "0 < length (rows example_table)"
    by (simp_all add: example_table_def example_row_def cut_row_def)
  show ?thesis
    using merged_row_takes_last_checked[of "[raw_value ''2012-01-01'' ''1.5'' ''P'']"
        "''2012-03-04''" example_table "raw_value ''2012-01-01'' ''1.5'' ''P''" 0 example_variable]
      a q dt ft n
    by (simp add: raw_value_def example_table_def example_row_def)
qed

text \<open>
  C5, as it is stated, fails: a record with the value and the qualifiers of the row it
  matches leaves the row with the query time as \<^verbatim>\<open>last_checked\<close>, not with the
  \<^verbatim>\<open>last_checked\<close> the row had.
\<close>

theorem last_checked_preserved_counterexample:
  "last_checked (rows (fst (refresh_table example_table example_variable
       [raw_value ''2012-01-01'' ''1.5'' ''P''] ''2012-03-04'')) ! 0) \<noteq>
   last_checked (rows example_table ! 0)"
  by (simp add: merge_eval_defs raw_value_def)

text \<open>
  C2, as the code has it. The incoming records are records of the fetch client whose
  strings fit the columns they go to. When the series has one row per timestamp and no
  timestamp that is new to the series occurs twice in the batch, the rows read back in
  sorted order have strictly ascending timestamps.
\<close>

theorem sorted_after_merge:
  assumes "\<forall>d \<in> set update_values. fetched d"
    and "distinct (map (\<lambda>d. the (d ''datetime''))
           (filter (\<lambda>d. the (d ''datetime'') \<notin> datetime ` set (rows table)) update_values))"
    and "distinct (map datetime (rows table))"
  shows "sorted_wrt (<) (map datetime
           (sorted_values (fst (update_or_append_sortable table update_values query_isodate))))"
  by (rule sorted_values_strict[OF merged_distinct_new[OF assms]])

theorem sorted_after_merge_witness:
  "fetched (fetched_value ''2012-01-02'' ''2.5'' ''P'' ''2012-03-06'') \<and>
   fetched (fetched_value ''2012-01-01'' ''1.6'' ''P'' ''2012-03-06'') \<and>
   fetched (fetched_value ''2012-01-01'' ''1.7'' ''A'' ''2012-03-06'') \<and>
   sorted_wrt (<) (map datetime
     (sorted_values (fst (update_or_append_sortable example_table
        [fetched_value ''2012-01-02'' ''2.5'' ''P'' ''2012-03-06'',
         fetched_value ''2012-01-01'' ''1.6'' ''P'' ''2012-03-06'',
         fetched_value ''2012-01-01'' ''1.7'' ''A'' ''2012-03-06''] ''2012-03-06''))))"
proof -
  have a: "fetched (fetched_value ''2012-01-02'' ''2.5'' ''P'' ''2012-03-06'')"
    and b: "fetched (fetched_value ''2012-01-01'' ''1.6'' ''P'' ''2012-03-06'')"
    and c: "fetched (fetched_value ''2012-01-01'' ''1.7'' ''A'' ''2012-03-06'')"
    by (simp_all add: fetched_def incoming_def fits_columns_def fits_key_def fetched_value_def)
  have h: "\<forall>d \<in> set [fetched_value ''2012-01-02'' ''2.5'' ''P'' ''2012-03-06'',
         fetched_value ''2012-01-01'' ''1.6'' ''P'' ''2012-03-06'',
         fetched_value ''2012-01-01'' ''1.7'' ''A'' ''2012-03-06'']. fetched d"
    using a b c by simp
  have dn: "distinct (map (\<lambda>d. the (d ''datetime''))
           (filter (\<lambda>d. the (d ''datetime'') \<notin> datetime ` set (rows example_table))
              [fetched_value ''2012-01-02'' ''2.5'' ''P'' ''2012-03-06'',
               fetched_value ''2012-01-01'' ''1.6'' ''P'' ''2012-03-06'',
               fetched_value ''2012-01-01'' ''1.7'' ''A'' ''2012-03-06'']))"
    by (simp add: fetched_value_def example_table_def example_row_def)
  have dt: "distinct (map datetime (rows example_table))" by (simp add: example_table_def)
  show ?thesis using a b c sorted_after_merge[OF h dn dt, of "''2012-03-06''"] by simp
qed

text \<open>
  C2, as it is stated, fails: two records of one batch with the same timestamp, which the
  series does not have yet, are both appended, and the sorted read has that timestamp twice.
\<close>

theorem sorted_after_merge_counterexample:
  "\<not> sorted_wrt (<) (map datetime
      (sorted_values (fst (update_or_append_sortable empty_table
         [fetched_value ''2012-01-05'' ''1.0'' ''P'' ''2012-03-07'',
          fetched_value ''2012-01-05'' ''2.0'' ''P'' ''2012-03-07''] ''2012-03-07''))))"
  by (simp add: merge_eval_defs)

text \<open>
  C3, as the code has it. The incoming records are records of the fetch client whose
  strings fit the columns they go to. When the series has one row per timestamp and no
  timestamp that is new to the series occurs twice in the batch, merging the batch a second
  time, with the same query time, leaves every row as the first merge left it: no row is
  added and no field of any row changes.
\<close>

theorem merge_twice_same_rows:
  assumes "\<forall>d \<in> set update_values. fetched d"
    and "distinct (map (\<lambda>d. the (d ''datetime''))
           (filter (\<lambda>d. the (d ''datetime'') \<notin> datetime ` set (rows table)) update_values))"
    and "distinct (map datetime (rows table))"
  shows "rows (fst (update_or_append_sortable
                 (fst (update_or_append_sortable table update_values query_isodate))
                 update_values query_isodate)) =
         rows (fst (update_or_append_sortable table update_values query_isodate))"
  by (rule second_merge_rows[OF assms])

theorem merge_twice_same_rows_witness:
  "fetched (fetched_value ''2012-01-02'' ''2.5'' ''P'' ''2012-03-08'') \<and>
   fetched (fetched_value ''2012-01-01'' ''1.6'' ''P'' ''2012-03-08'') \<and>
   fetched (fetched_value ''2012-01-01'' ''1.7'' ''A'' ''2012-03-08'') \<and>
   rows (fst (update_or_append_sortable
          (fst (update_or_append_sortable example_table
             [fetched_value ''2012-01-02'' ''2.5'' ''P'' ''2012-03-08'',
              fetched_value ''2012-01-01'' ''1.6'' ''P'' ''2012-03-08'',
              fetched_value ''2012-01-01'' ''1.7'' ''A'' ''2012-03-08''] ''2012-03-08''))
          [fetched_value ''2012-01-02'' ''2.5'' ''P'' ''2012-03-08'',
           fetched_value ''2012-01-01'' ''1.6'' ''P'' ''2012-03-08'',
           fetched_value ''2012-01-01'' ''1.7'' ''A'' ''2012-03-08''] ''2012-03-08'')) =
   rows (fst (update_or_append_sortable example_table
          [fetched_value ''2012-01-02'' ''2.5'' ''P'' ''2012-03-08'',
           fetched_value ''2012-01-01'' ''1.6'' ''P'' ''2012-03-08'',
           fetched_value ''2012-01-01'' ''1.7'' ''A'' ''2012-03-08''] ''2012-03-08''))"
proof -
  have a: "fetched (fetched_value ''2012-01-02'' ''2.5'' ''P'' ''2012-03-08'')"
    and b: "fetched (fetched_value ''2012-01-01'' ''1.6'' ''P'' ''2012-03-08'')"
    and c: "fetched (fetched_value ''2012-01-01'' ''1.7'' ''A'' ''2012-03-08'')"
    by (simp_all add: fetched_def incoming_def fits_columns_def fits_key_def fetched_value_def)
  have h: "\<forall>d \<in> set [fetched_value ''2012-01-02'' ''2.5'' ''P'' ''2012-03-08'',
              fetched_value ''2012-01-01'' ''1.6'' ''P'' ''2012-03-08'',
              fetched_value ''2012-01-01'' ''1.7'' ''A'' ''2012-03-08'']. fetched d"
    using a b c by simp
  have dn: "distinct (map (\<lambda>d. the (d ''datetime''))
           (filter (\<lambda>d. the (d ''datetime'') \<notin> datetime ` set (rows example_table))
              [fetched_value ''2012-01-02'' ''2.5'' ''P'' ''2012-03-08'',
               fetched_value ''2012-01-01'' ''1.6'' ''P'' ''2012-03-08'',
               fetched_value ''2012-01-01'' ''1.7'' ''A'' ''2012-03-08'']))"
    by (simp add: fetched_value_def example_table_def example_row_def)
  have dt: "distinct (map datetime (rows example_table))" by (simp add: example_table_def)
  from a b c merge_twice_same_rows[OF h dn dt, of "''2012-03-08''"] show ?thesis by (intro conjI)
qed

text \<open>
  C3, as it is stated, fails: of two records with one timestamp and two values, merged into
  an empty series, the first merge appends both; the second merge finds the first of the two
  rows for both records and leaves the value of the second record in it.
\<close>

theorem merge_twice_counterexample:
  "rows (fst (update_or_append_sortable
          (fst (update_or_append_sortable empty_table
             [fetched_value ''2012-01-05'' ''1.0'' ''P'' ''2012-03-07'',
              fetched_value ''2012-01-05'' ''2.0'' ''P'' ''2012-03-07''] ''2012-03-07''))
          [fetched_value ''2012-01-05'' ''1.0'' ''P'' ''2012-03-07'',
           fetched_value ''2012-01-05'' ''2.0'' ''P'' ''2012-03-07''] ''2012-03-07'')) \<noteq>
   rows (fst (update_or_append_sortable empty_table
          [fetched_value ''2012-01-05'' ''1.0'' ''P'' ''2012-03-07'',
           fetched_value ''2012-01-05'' ''2.0'' ''P'' ''2012-03-07''] ''2012-03-07''))"
  by (simp add: merge_eval_defs)

section \<open>The claims about the file and its nodes\<close>

text \<open>
  C9. The range of an update without \<^verbatim>\<open>start\<close>, \<^verbatim>\<open>end\<close> and \<^verbatim>\<open>period\<close>, on the file opened
  for writing. The \<open>stamps\<close> are the \<^verbatim>\<open>last_refresh\<close> attributes of the nodes right below
  the group of the site, \<open>None\<close> where a node has none; those that are there are timestamps,
  so not the empty string. When there is a node and every node has the attribute, the range
  starts at the least of them; otherwise the range is the period \<^verbatim>\<open>all\<close>.
\<close>

theorem refresh_range:
  assumes "is_writable h5file"
    and "stamps = map node_last_refresh
                    (iter_nodes h5file [''usgs'', ''values'', agency site, code site])"
    and "Some [] \<notin> set stamps"
  shows "snd (date_range_params None None None site h5file) =
           Inr (if stamps \<noteq> [] \<and> None \<notin> set stamps then Start (Min (the ` set stamps))
                else Period ''all'')"
proof -
  have lr: "snd (last_refresh site h5file) = Inr (if stamps = [] then None else min_list stamps)"
    using last_refresh_writable[OF assms(1), of site] assms(2) by (simp add: Let_def)
  obtain h5 where h5: "last_refresh site h5file = (h5, Inr (if stamps = [] then None else min_list stamps))"
    using lr by (cases "last_refresh site h5file") simp
  show ?thesis
  proof (cases "stamps \<noteq> [] \<and> None \<notin> set stamps")
    case True
    then have m: "stamps = map Some (map the stamps)" using all_Some_map by blast
    have ne: "map the stamps \<noteq> []" using True by simp
    have "min_list stamps = Some (Min (set (map the stamps)))"
      using min_list_Some[OF ne] m by simp
    moreover have "Min (set (map the stamps)) \<in> set (map the stamps)"
      using ne by (intro Min_in) simp_all
    then obtain s where s: "s \<in> set stamps" "the s = Min (set (map the stamps))" by auto
    have "s \<noteq> None"
    proof
      assume "s = None"
      then have "None \<in> set stamps" using s(1) by simp
      then show False using True by simp
    qed
    then have "s = Some (Min (set (map the stamps)))" using s(2) by auto
    then have "Min (set (map the stamps)) \<noteq> []" using assms(3) s(1) by auto
    ultimately show ?thesis using True h5 by (simp add: date_range_params_def)
  next
    case False
    then have "stamps = [] \<or> min_list stamps = None" using min_list_None[of stamps] by auto
    then show ?thesis using False h5 by (auto simp: date_range_params_def)
  qed
qed

theorem refresh_range_witness:
  "is_writable (cached_store ''r+'') \<and>
   snd (date_range_params None None None example_site (cached_store ''r+'')) =
     Inr (Start ''2012-01-15'')"
proof -
  have w: "is_writable (cached_store ''r+'')" by (simp add: is_writable_def cached_store_def)
  have s: "map node_last_refresh
             (iter_nodes (cached_store ''r+'') [''usgs'', ''values'', agency example_site,
                code example_site]) = [Some ''2012-02-01'', Some ''2012-01-15'']"
    by (simp add: iter_nodes_def cached_store_def example_site_def)
  have n: "Some [] \<notin> set [Some ''2012-02-01'', Some ''2012-01-15'']" by simp
  show ?thesis
    using w refresh_range[OF w s[symmetric] n] by simp
qed

text \<open>
  C7, as the code has it. On a file that is not writable no function creates a node: each
  hands back the file it was given. A sites table, a site group or a value table that was
  never created is \<^verbatim>\<open>None\<close>; \<^verbatim>\<open>get_sites\<close> and \<^verbatim>\<open>get_site_data\<close> return the empty dict when
  there is no sites table, and \<^verbatim>\<open>get_site_data\<close> also when the sites table has no row for the
  site code. When the sites table has one row for the site code and the group of the site
  was never created, \<^verbatim>\<open>get_site_data\<close> raises the exception \<^verbatim>\<open>no site found for code\<close>.
\<close>

theorem read_only_access:
  assumes "\<not> is_writable h5file"
  shows "fst (get_usgs_group h5file) = h5file \<and> fst (get_sites_table h5file) = h5file \<and>
         fst (get_values_group h5file) = h5file \<and>
         fst (get_agency_group h5file agency_name) = h5file \<and>
         fst (get_site_group h5file site) = h5file \<and>
         fst (get_value_table h5file site v) = h5file \<and>
         fst (get_sites h5file) = h5file \<and>
         fst (get_site_data h5file site_code agency_code) = h5file \<and>
         (get_node h5file [''usgs'', ''sites''] = None \<longrightarrow>
            snd (get_sites_table h5file) = None \<and> snd (get_sites h5file) = Inr Map.empty \<and>
            snd (get_site_data h5file site_code agency_code) = Inr Map.empty) \<and>
         (get_node h5file [''usgs'', ''values'', agency site, code site] = None \<longrightarrow>
            snd (get_site_group h5file site) = None) \<and>
         (get_node h5file [''usgs'', ''values'', agency site, code site, value_table_name v] = None \<longrightarrow>
            snd (get_value_table h5file site v) = Inr None) \<and>
         (\<forall>site_rows.
            get_node h5file [''usgs''] \<noteq> None \<and>
            get_node h5file [''usgs'', ''sites''] = Some (SitesTable site_rows) \<longrightarrow>
            (filter (where_clause site_code agency_code) site_rows = [] \<longrightarrow>
               snd (get_site_data h5file site_code agency_code) = Inr Map.empty) \<and>
            (\<forall>row. filter (where_clause site_code agency_code) site_rows = [row] \<and>
                   agency row \<noteq> [] \<and>
                   get_node h5file [''usgs'', ''values'', agency row, site_code] = None \<longrightarrow>
                   snd (get_site_data h5file site_code agency_code) = Inl (NoSiteFound site_code)))"
proof -
  have a: "fst (get_usgs_group h5file) = h5file" "fst (get_sites_table h5file) = h5file"
    "fst (get_values_group h5file) = h5file" "fst (get_agency_group h5file agency_name) = h5file"
    "fst (get_site_group h5file site) = h5file" "fst (get_value_table h5file site v) = h5file"
    by (simp_all add: get_usgs_group_read_only[OF assms] get_sites_table_read_only[OF assms]
          get_values_group_read_only[OF assms] get_agency_group_read_only[OF assms]
          get_site_group_read_only[OF assms] get_value_table_read_only[OF assms])
  have b: "fst (get_sites h5file) = h5file"
    "fst (get_site_data h5file site_code agency_code) = h5file"
    by (rule get_sites_read_only(1)[OF assms], rule get_site_data_fst[OF assms])
  have c: "get_node h5file [''usgs'', ''sites''] = None \<longrightarrow>
            snd (get_sites_table h5file) = None \<and> snd (get_sites h5file) = Inr Map.empty \<and>
            snd (get_site_data h5file site_code agency_code) = Inr Map.empty"
    using get_sites_read_only(2)[OF assms] get_site_data_no_table[OF assms, of site_code agency_code]
    by (simp add: get_sites_table_read_only[OF assms])
  have d: "get_node h5file [''usgs'', ''values'', agency site, code site] = None \<longrightarrow>
            snd (get_site_group h5file site) = None"
    by (simp add: get_site_group_read_only[OF assms])
  have e: "get_node h5file [''usgs'', ''values'', agency site, code site, value_table_name v] = None \<longrightarrow>
            snd (get_value_table h5file site v) = Inr None"
    by (simp add: get_value_table_read_only[OF assms])
  have f: "\<forall>site_rows.
            get_node h5file [''usgs''] \<noteq> None \<and>
            get_node h5file [''usgs'', ''sites''] = Some (SitesTable site_rows) \<longrightarrow>
            (filter (where_clause site_code agency_code) site_rows = [] \<longrightarrow>
               snd (get_site_data h5file site_code agency_code) = Inr Map.empty) \<and>
            (\<forall>row. filter (where_clause site_code agency_code) site_rows = [row] \<and>
                   agency row \<noteq> [] \<and>
                   get_node h5file [''usgs'', ''values'', agency row, site_code] = None \<longrightarrow>
                   snd (get_site_data h5file site_code agency_code) = Inl (NoSiteFound site_code))"
  proof (intro allI impI)
    fix site_rows
    assume "get_node h5file [''usgs''] \<noteq> None \<and>
            get_node h5file [''usgs'', ''sites''] = Some (SitesTable site_rows)"
    then have g: "get_site_data h5file site_code agency_code =
       (case filter (where_clause site_code agency_code) site_rows of
        [] \<Rightarrow> (h5file, Inr Map.empty)
      | row # others \<Rightarrow>
          if agency (last (row # others)) = [] then (h5file, Inr Map.empty)
          else if 1 \<le> length others \<and> \<not> agency_given agency_code then (h5file, Inl TypeError)
          else
            (case get_node h5file [''usgs'', ''values'', agency (last (row # others)), site_code] of
               None \<Rightarrow> (h5file, Inl (NoSiteFound site_code))
             | Some site_group \<Rightarrow>
                 (h5file, site_values h5file [''usgs'', ''values'', agency (last (row # others)), site_code])))"
      using get_site_data_found[of h5file site_rows site_code agency_code] by simp
    show "(filter (where_clause site_code agency_code) site_rows = [] \<longrightarrow>
               snd (get_site_data h5file site_code agency_code) = Inr Map.empty) \<and>
            (\<forall>row. filter (where_clause site_code agency_code) site_rows = [row] \<and>
                   agency row \<noteq> [] \<and>
                   get_node h5file [''usgs'', ''values'', agency row, site_code] = None \<longrightarrow>
                   snd (get_site_data h5file site_code agency_code) = Inl (NoSiteFound site_code))"
      unfolding g by simp
  qed
  show ?thesis using a b c d e f by (intro conjI)
qed

theorem read_only_access_witness:
  "\<not> is_writable empty_store \<and>
   fst (get_sites empty_store) = empty_store \<and>
   snd (get_sites empty_store) = Inr Map.empty \<and>
   fst (get_site_data empty_store ''01'' None) = empty_store \<and>
   snd (get_site_data empty_store ''01'' None) = Inr Map.empty \<and>
   fst (get_value_table empty_store example_site example_variable) = empty_store \<and>
   snd (get_value_table empty_store example_site example_variable) = Inr None \<and>
   \<not> is_writable catalog_only_store \<and>
   snd (get_site_data catalog_only_store ''01'' (Some ''USGS'')) = Inl (NoSiteFound ''01'')"
proof -
  have r: "\<not> is_writable empty_store" by (simp add: is_writable_def empty_store_def)
  have n: "get_node empty_store [''usgs'', ''sites''] = None"
    "get_node empty_store [''usgs'', ''values'', agency example_site, code example_site,
       value_table_name example_variable] = None"
    by (simp_all add: get_node_def empty_store_def)
  note t = read_only_access[OF r, of _ example_site example_variable "''01''" None]
  have r2: "\<not> is_writable catalog_only_store" by (simp add: is_writable_def catalog_only_store_def)
  have g: "get_node catalog_only_store [''usgs''] \<noteq> None \<and>
           get_node catalog_only_store [''usgs'', ''sites''] = Some (SitesTable [example_site])"
    by (simp add: get_node_def catalog_only_store_def)
  have h: "filter (where_clause ''01'' (Some ''USGS'')) [example_site] = [example_site] \<and>
           agency example_site \<noteq> [] \<and>
           get_node catalog_only_store [''usgs'', ''values'', agency example_site, ''01''] = None"
    by (simp add: where_clause_def example_site_def get_node_def catalog_only_store_def)
  note t2 = read_only_access[OF r2, of _ example_site example_variable "''01''" "Some ''USGS''"]
  have "snd (get_site_data catalog_only_store ''01'' (Some ''USGS'')) = Inl (NoSiteFound ''01'')"
    using t2 g h by blast
  then show ?thesis using r r2 t n by simp
qed

text \<open>
  C7, as it is stated, fails: the file is opened read-only, the sites table has the site
  and the group of the site was never created; \<^verbatim>\<open>get_site_data\<close> raises an exception
  where the claim has an empty result.
\<close>

theorem read_only_empty_result_counterexample:
  "mode catalog_only_store = ''r'' \<and>
   get_node catalog_only_store [''usgs'', ''values'', ''USGS'', ''01''] = None \<and>
   snd (get_site_data catalog_only_store ''01'' None) = Inl (NoSiteFound ''01'')"
  by (simp add: store_eval_defs catalog_only_store_def example_site_def)





end
